(* ===== verification/Prelude.thy ===== *)
theory Prelude
  imports Main "HOL-Library.Word" "HOL-Library.Multiset"
begin

text \<open>
  What the component theories share: the outcome of a Go call that may panic, its
  sequencing operator, slice reads, machine integers read as signed numbers, the order in
  which a \<^verbatim>\<open>range\<close> statement visits a map, and strict weak orders, the contract that the
  comparison functions of the repository promise to the heap and to the sorting of queues.
\<close>

named_theorems go_simps \<open>evaluation and inversion of calls that may panic\<close>
named_theorems model_defs \<open>definitions of small accessors that proofs always unfold\<close>

section \<open>Go calls that may panic\<close>

text \<open>
  A run-time panic ends the process (nothing in the repository recovers), so a panic carries
  no state. An \<^verbatim>\<open>error\<close> result is an ordinary value and is modelled in the result type
  of each operation.
\<close>

datatype panic =
    IndexOutOfRange        \<comment> \<open>slice index outside the slice\<close>
  | NilDereference         \<comment> \<open>field of a nil pointer\<close>
  | NilFunctionCall        \<comment> \<open>call of a nil function value\<close>
  | TypeAssertionFailed    \<comment> \<open>\<open>x.(T)\<close> where \<open>x\<close> does not hold a \<open>T\<close>\<close>
  | CloseOfNilChannel      \<comment> \<open>\<open>close\<close> of a nil channel\<close>
  | CloseOfClosedChannel   \<comment> \<open>\<open>close\<close> of a closed channel\<close>
  | ProcessExit            \<comment> \<open>\<open>klog.Fatalf\<close>\<close>

datatype 'a go = Ok 'a | Panic panic

fun go_bind :: "'a go \<Rightarrow> ('a \<Rightarrow> 'b go) \<Rightarrow> 'b go" where
  "go_bind (Ok x) f = f x"
| "go_bind (Panic e) f = Panic e"

fun panics :: "'a go \<Rightarrow> bool" where
  "panics (Ok _) = False"
| "panics (Panic _) = True"

lemma go_bind_cong [fundef_cong]:
  assumes "m = m'" and "\<And>x. m' = Ok x \<Longrightarrow> f x = f' x"
  shows "go_bind m f = go_bind m' f'"
  using assms by (cases m') auto

lemma go_bind_eq_Ok [go_simps]:
  "go_bind m f = Ok y \<longleftrightarrow> (\<exists>x. m = Ok x \<and> f x = Ok y)"
  by (cases m) auto

lemma go_bind_eq_Panic [go_simps]:
  "go_bind m f = Panic e \<longleftrightarrow> m = Panic e \<or> (\<exists>x. m = Ok x \<and> f x = Panic e)"
  by (cases m) auto

lemma go_bind_assoc: "go_bind (go_bind m f) g = go_bind m (\<lambda>x. go_bind (f x) g)"
  by (cases m) auto

lemma go_bind_Ok_right [simp]: "go_bind m Ok = m"
  by (cases m) auto

lemma not_panics_iff: "\<not> panics m \<longleftrightarrow> (\<exists>x. m = Ok x)"
  by (cases m) auto

section \<open>Slices\<close>

definition slice_get :: "'a list \<Rightarrow> nat \<Rightarrow> 'a go" where
  "slice_get xs i = (if i < length xs then Ok (xs ! i) else Panic IndexOutOfRange)"

lemma slice_get_in [simp]: "i < length xs \<Longrightarrow> slice_get xs i = Ok (xs ! i)"
  by (simp add: slice_get_def)

lemma slice_get_out [simp]: "length xs \<le> i \<Longrightarrow> slice_get xs i = Panic IndexOutOfRange"
  by (simp add: slice_get_def)

lemma slice_get_eq_Ok [go_simps]:
  "slice_get xs i = Ok x \<longleftrightarrow> i < length xs \<and> x = xs ! i"
  by (auto simp: slice_get_def)

definition swap_at :: "nat \<Rightarrow> nat \<Rightarrow> 'a list \<Rightarrow> 'a list" where
  "swap_at i j xs = xs[i := xs ! j, j := xs ! i]"

lemma length_swap_at [simp]: "length (swap_at i j xs) = length xs"
  by (simp add: swap_at_def)

lemma swap_at_same [simp]: "swap_at i i xs = xs"
  by (simp add: swap_at_def)

lemma nth_swap_at:
  assumes "i < length xs" "j < length xs" "k < length xs"
  shows "swap_at i j xs ! k = (if k = i then xs ! j else if k = j then xs ! i else xs ! k)"
  using assms by (auto simp: swap_at_def nth_list_update)

lemma mset_swap_at [simp]:
  "i < length xs \<Longrightarrow> j < length xs \<Longrightarrow> mset (swap_at i j xs) = mset xs"
  by (simp add: swap_at_def mset_swap)

lemma set_swap_at [simp]:
  "i < length xs \<Longrightarrow> j < length xs \<Longrightarrow> set (swap_at i j xs) = set xs"
  by (metis mset_eq_setD mset_swap_at)

lemma map_swap_at:
  "i < length xs \<Longrightarrow> j < length xs \<Longrightarrow> map f (swap_at i j xs) = swap_at i j (map f xs)"
  by (simp add: swap_at_def map_update)

section \<open>Association lists with distinct keys\<close>

lemma map_of_filter_neq: "map_of (filter (\<lambda>p. fst p \<noteq> k) xs) = (map_of xs)(k := None)"
  by (induction xs) (auto simp: fun_eq_iff)

lemma mset_remove_key:
  "distinct (map fst xs) \<Longrightarrow> (k, x) \<in> set xs \<Longrightarrow>
   mset xs = add_mset (k, x) (mset (filter (\<lambda>p. fst p \<noteq> k) xs))"
proof (induction xs)
  case (Cons p xs)
  show ?case
  proof (cases "fst p = k")
    case True
    with Cons.prems(1) have "\<forall>q \<in> set xs. fst q \<noteq> k" by (auto simp: image_iff)
    then have "filter (\<lambda>p. fst p \<noteq> k) xs = xs" by simp
    moreover have "p = (k, x)"
      using True Cons.prems \<open>\<forall>q \<in> set xs. fst q \<noteq> k\<close> by auto
    ultimately show ?thesis by simp
  qed (use Cons in auto)
qed simp

lemma distinct_filter_keys: "distinct (map fst xs) \<Longrightarrow> distinct (map fst (filter P xs))"
  by (induction xs) auto

lemma mset_butlast_last: "xs \<noteq> [] \<Longrightarrow> mset xs = add_mset (last xs) (mset (butlast xs))"
  by (induction xs) auto

section \<open>Machine integers\<close>

type_synonym int32 = "32 word"
type_synonym int64 = "64 word"

lemma sint64_less_max: "sint (x :: int64) < 2 ^ 63" and sint64_ge_min: "- (2 ^ 63) \<le> sint (x :: int64)"
  using sint_lt [of x] sint_ge [of x] by simp_all

lemma sint64_of_int:
  assumes "- (2 ^ 63) \<le> k" "k < 2 ^ 63"
  shows "sint (word_of_int k :: int64) = k"
  using assms by (simp add: sint_sbintrunc' signed_take_bit_int_eq_self)

lemma sint64_add_one:
  assumes "sint (i :: int64) < sint (a :: int64)"
  shows "sint (i + 1) = sint i + 1"
proof -
  have "i + 1 = word_of_int (sint i + 1)" by simp
  moreover have "sint (word_of_int (sint i + 1) :: int64) = sint i + 1"
    by (rule sint64_of_int) (use assms sint64_less_max [of a] sint64_ge_min [of i] in linarith)+
  ultimately show ?thesis by simp
qed

section \<open>Decimal notation\<close>

text \<open>The verbs \<^verbatim>\<open>%d\<close> and \<^verbatim>\<open>%v\<close> on integers.\<close>

fun nat_digits :: "nat \<Rightarrow> string" where
  "nat_digits n =
     (if n < 10 then [char_of (48 + n)] else nat_digits (n div 10) @ [char_of (48 + n mod 10)])"

declare nat_digits.simps [simp del]

definition itoa :: "int \<Rightarrow> string" where
  "itoa i = (if i < 0 then ''-'' @ nat_digits (nat (- i)) else nat_digits (nat i))"

section \<open>The order of a range statement over a map\<close>

text \<open>
  A \<^verbatim>\<open>range\<close> statement visits every key of a map once, in an order the language leaves
  open. The order is a list of keys that is an argument of the operations that range over a
  map; \<open>is_range\<close> says which lists are possible.
\<close>

definition is_range :: "'k list \<Rightarrow> ('k \<rightharpoonup> 'v) \<Rightarrow> bool" where
  "is_range ks m \<longleftrightarrow> distinct ks \<and> set ks = dom m"

lemma is_range_finite: "is_range ks m \<Longrightarrow> finite (dom m)"
  by (metis is_range_def finite_set)

lemma is_range_length: "is_range ks m \<Longrightarrow> length ks = card (dom m)"
  by (metis is_range_def distinct_card)

section \<open>Strict weak orders\<close>

text \<open>
  The contract of a \<^verbatim>\<open>less\<close> function: asymmetric, and incomparability is transitive
  (stated as negative transitivity).
\<close>

locale strict_weak_order =
  fixes lt :: "'a \<Rightarrow> 'a \<Rightarrow> bool"
  assumes lt_asym: "lt x y \<Longrightarrow> \<not> lt y x"
    and lt_split: "lt x z \<Longrightarrow> lt x y \<or> lt y z"
begin

lemma lt_irrefl: "\<not> lt x x"
  using lt_asym by blast

lemma lt_trans: "lt x y \<Longrightarrow> lt y z \<Longrightarrow> lt x z"
  using lt_asym lt_split by blast

lemma not_lt_trans: "\<not> lt y x \<Longrightarrow> \<not> lt z y \<Longrightarrow> \<not> lt z x"
  using lt_split by blast

lemma transp_not_lt: "transp (\<lambda>x y. \<not> lt y x)"
  by (rule transpI) (rule not_lt_trans)

end

text \<open>A comparison of keys in a linear order is a strict weak order.\<close>

lemma key_strict_weak_order:
  "strict_weak_order (\<lambda>x y. (f x :: 'b :: linorder) < f y)"
  by unfold_locales auto

lemma pullback_strict_weak_order:
  assumes "strict_weak_order lt"
  shows "strict_weak_order (\<lambda>x y. lt (f x) (f y))"
  using assms by (simp add: strict_weak_order_def)

end
