(* ===== verification/Go_Heap.thy ===== *)
theory Go_Heap
  imports Prelude
begin

text \<open>
  The model of \<^verbatim>\<open>pkg/queue/heap/heap.go\<close>: the record \<open>data\<close> with its key index, the methods
  \<open>data_Less\<close> to \<open>data_Peek\<close> that implement \<^verbatim>\<open>heap.Interface\<close>, the functions of the
  standard library's \<^verbatim>\<open>container/heap\<close> that the file calls (\<open>heap_up\<close> to \<open>heap_Fix\<close>), and
  the exported methods \<open>Heap_Add\<close> to \<open>Heap_New\<close>. Every slice read, nil pointer and call of the
  comparison function can panic, as in the source; theory \<^verbatim>\<open>Heap_Contract\<close> shows when none does.

  Slice indices are natural numbers. The one negative index the source can compute is
  \<^verbatim>\<open>n = h.Len() - 1\<close> on an empty heap, which is passed to \<^verbatim>\<open>Swap(0, n)\<close>: that
  branch is written out in \<open>heap_Pop\<close>. The overflow test \<^verbatim>\<open>j1 < 0\<close> of
  \<^verbatim>\<open>down\<close> is never true for indices of a slice of strings, whose elements take sixteen bytes.
\<close>

section \<open>Data\<close>

text \<open>The functions a heap is made with; a comparison may panic.\<close>

type_synonym 'a KeyFunc = "'a \<Rightarrow> string + string"

type_synonym 'a lessFunc = "'a \<Rightarrow> 'a \<Rightarrow> bool go"

text \<open>An item of the heap and its position in the queue (the pointer is only held by the map).\<close>

record 'a heapItem =
  obj :: 'a
  index :: nat

record 'a itemKeyValue =
  kv_key :: string
  kv_obj :: 'a

text \<open>The error values the heap returns: a key function's error wrapped with the object, or a message.\<close>

datatype 'a heap_error = KeyError 'a string | Errorf string

record 'a data =
  items :: "string \<rightharpoonup> 'a heapItem"
  queue :: "string list"
  keyFunc :: "'a KeyFunc"
  lessFunc :: "'a lessFunc"

section \<open>The methods of heap.Interface\<close>

definition data_Less :: "'a data \<Rightarrow> nat \<Rightarrow> nat \<Rightarrow> bool go" where
  "data_Less h i j =
     (if length (queue h) < i \<or> length (queue h) < j then Ok False
      else go_bind (slice_get (queue h) i) (\<lambda>ki.
        case items h ki of
          None \<Rightarrow> Ok False
        | Some itemi \<Rightarrow> go_bind (slice_get (queue h) j) (\<lambda>kj.
            case items h kj of
              None \<Rightarrow> Ok False
            | Some itemj \<Rightarrow> lessFunc h (obj itemi) (obj itemj))))"

definition data_Len :: "'a data \<Rightarrow> nat" where
  "data_Len h = length (queue h)"

text \<open>\<open>item := h.items[k]; item.index = i\<close>\<close>

definition set_index :: "'a data \<Rightarrow> string \<Rightarrow> nat \<Rightarrow> 'a data go" where
  "set_index h k i =
     (case items h k of
        None \<Rightarrow> Panic NilDereference
      | Some item \<Rightarrow> Ok (h\<lparr>items := (items h)(k \<mapsto> item\<lparr>index := i\<rparr>)\<rparr>))"

definition data_Swap :: "'a data \<Rightarrow> nat \<Rightarrow> nat \<Rightarrow> 'a data go" where
  "data_Swap h i j =
     go_bind (slice_get (queue h) j) (\<lambda>kj.
     go_bind (slice_get (queue h) i) (\<lambda>ki.
     let h1 = h\<lparr>queue := (queue h)[i := kj, j := ki]\<rparr> in
     go_bind (set_index h1 (queue h1 ! i) i) (\<lambda>h2.
     set_index h2 (queue h2 ! j) j)))"

definition data_Push :: "'a data \<Rightarrow> 'a itemKeyValue \<Rightarrow> 'a data" where
  "data_Push h kv =
     (let n = length (queue h) in
      h\<lparr>items := (items h)(kv_key kv \<mapsto> \<lparr>obj = kv_obj kv, index = n\<rparr>),
        queue := queue h @ [kv_key kv]\<rparr>)"

text \<open>The result \<^verbatim>\<open>nil\<close> is \<open>None\<close>.\<close>

definition data_Pop :: "'a data \<Rightarrow> ('a data \<times> 'a option) go" where
  "data_Pop h =
     (if queue h = [] then Panic IndexOutOfRange
      else let k = last (queue h); h1 = h\<lparr>queue := butlast (queue h)\<rparr> in
        case items h1 k of
          None \<Rightarrow> Ok (h1, None)
        | Some item \<Rightarrow> Ok (h1\<lparr>items := (items h1)(k := None)\<rparr>, Some (obj item)))"

definition data_Peek :: "'a data \<Rightarrow> 'a option go" where
  "data_Peek h =
     (case queue h of
        [] \<Rightarrow> Ok None
      | k # _ \<Rightarrow> (case items h k of
            None \<Rightarrow> Panic NilDereference
          | Some item \<Rightarrow> Ok (Some (obj item))))"

section \<open>The functions of container/heap\<close>

function heap_up :: "'a data \<Rightarrow> nat \<Rightarrow> 'a data go" where
  "heap_up h j =
     (let i = (j - 1) div 2 in
      if i = j then Ok h
      else go_bind (data_Less h j i) (\<lambda>less.
        if \<not> less then Ok h
        else go_bind (data_Swap h i j) (\<lambda>h'. heap_up h' i)))"
  by pat_completeness auto
termination
  by (relation "measure (\<lambda>(h, j). j)") auto

text \<open>The loop of \<^verbatim>\<open>down\<close>, which ends at the position the element came to rest.\<close>

function heap_down_loop :: "'a data \<Rightarrow> nat \<Rightarrow> nat \<Rightarrow> ('a data \<times> nat) go" where
  "heap_down_loop h i n =
     (let j1 = 2 * i + 1; j2 = j1 + 1 in
      if n \<le> j1 then Ok (h, i)
      else go_bind (if j2 < n then data_Less h j2 j1 else Ok False) (\<lambda>right.
        let j = (if right then j2 else j1) in
        go_bind (data_Less h j i) (\<lambda>less.
          if \<not> less then Ok (h, i)
          else go_bind (data_Swap h i j) (\<lambda>h'. heap_down_loop h' j n))))"
  by pat_completeness auto
termination
  by (relation "measure (\<lambda>(h, i, n). n - i)") auto

declare heap_up.simps [simp del] heap_down_loop.simps [simp del]

lemma heap_up_0 [simp]: "heap_up h 0 = Ok h"
  by (simp add: heap_up.simps [of h 0])

definition heap_down :: "'a data \<Rightarrow> nat \<Rightarrow> nat \<Rightarrow> ('a data \<times> bool) go" where
  "heap_down h i0 n = go_bind (heap_down_loop h i0 n) (\<lambda>(h', i). Ok (h', i0 < i))"

definition heap_Push :: "'a data \<Rightarrow> 'a itemKeyValue \<Rightarrow> 'a data go" where
  "heap_Push h x = (let h1 = data_Push h x in heap_up h1 (data_Len h1 - 1))"

text \<open>On an empty heap \<open>n\<close> is \<open>-1\<close> and \<open>Swap(0, n)\<close> reads outside the slice.\<close>

definition heap_Pop :: "'a data \<Rightarrow> ('a data \<times> 'a option) go" where
  "heap_Pop h =
     (if data_Len h = 0 then Panic IndexOutOfRange
      else let n = data_Len h - 1 in
        go_bind (data_Swap h 0 n) (\<lambda>h1.
        go_bind (heap_down h1 0 n) (\<lambda>(h2, _).
        data_Pop h2)))"

definition heap_Fix :: "'a data \<Rightarrow> nat \<Rightarrow> 'a data go" where
  "heap_Fix h i =
     go_bind (heap_down h i (data_Len h)) (\<lambda>(h1, moved).
     if \<not> moved then heap_up h1 i else Ok h1)"

text \<open>On an empty heap \<open>n\<close> is \<open>-1\<close>, which differs from \<open>i\<close>, and \<open>Swap(i, n)\<close> panics.\<close>

definition heap_Remove :: "'a data \<Rightarrow> nat \<Rightarrow> ('a data \<times> 'a option) go" where
  "heap_Remove h i =
     (if data_Len h = 0 then Panic IndexOutOfRange
      else let n = data_Len h - 1 in
        go_bind
          (if n \<noteq> i then
             go_bind (data_Swap h i n) (\<lambda>h1.
             go_bind (heap_down h1 i n) (\<lambda>(h2, moved).
             if \<not> moved then heap_up h2 i else Ok h2))
           else Ok h)
          data_Pop)"

section \<open>The exported heap\<close>

text \<open>\<^verbatim>\<open>Heap\<close> is a struct whose only field points to its \<open>data\<close>.\<close>

type_synonym 'a Heap = "'a data"

definition Heap_Add :: "'a Heap \<Rightarrow> 'a \<Rightarrow> ('a Heap \<times> 'a heap_error option) go" where
  "Heap_Add h x =
     (case keyFunc h x of
        Inl err \<Rightarrow> Ok (h, Some (KeyError x err))
      | Inr k \<Rightarrow>
          (case items h k of
             Some item \<Rightarrow>
               go_bind (heap_Fix (h\<lparr>items := (items h)(k \<mapsto> item\<lparr>obj := x\<rparr>)\<rparr>) (index item))
                 (\<lambda>h'. Ok (h', None))
           | None \<Rightarrow>
               go_bind (heap_Push h \<lparr>kv_key = k, kv_obj = x\<rparr>) (\<lambda>h'. Ok (h', None))))"

definition Heap_AddIfNotPresent :: "'a Heap \<Rightarrow> 'a \<Rightarrow> ('a Heap \<times> 'a heap_error option) go" where
  "Heap_AddIfNotPresent h x =
     (case keyFunc h x of
        Inl err \<Rightarrow> Ok (h, Some (KeyError x err))
      | Inr k \<Rightarrow>
          (case items h k of
             Some _ \<Rightarrow> Ok (h, None)
           | None \<Rightarrow>
               go_bind (heap_Push h \<lparr>kv_key = k, kv_obj = x\<rparr>) (\<lambda>h'. Ok (h', None))))"

definition Heap_Update :: "'a Heap \<Rightarrow> 'a \<Rightarrow> ('a Heap \<times> 'a heap_error option) go" where
  "Heap_Update h x = Heap_Add h x"

definition Heap_Delete :: "'a Heap \<Rightarrow> 'a \<Rightarrow> ('a Heap \<times> 'a heap_error option) go" where
  "Heap_Delete h x =
     (case keyFunc h x of
        Inl err \<Rightarrow> Ok (h, Some (KeyError x err))
      | Inr k \<Rightarrow>
          (case items h k of
             Some item \<Rightarrow> go_bind (heap_Remove h (index item)) (\<lambda>(h', _). Ok (h', None))
           | None \<Rightarrow> Ok (h, Some (Errorf ''object not found''))))"

definition Heap_Peek :: "'a Heap \<Rightarrow> 'a option go" where
  "Heap_Peek h = data_Peek h"

definition Heap_Pop :: "'a Heap \<Rightarrow> ('a Heap \<times> ('a heap_error + 'a)) go" where
  "Heap_Pop h =
     go_bind (heap_Pop h) (\<lambda>(h', x).
       case x of
         Some x \<Rightarrow> Ok (h', Inr x)
       | None \<Rightarrow> Ok (h', Inl (Errorf ''object was removed from heap data'')))"

definition Heap_GetByKey :: "'a Heap \<Rightarrow> string \<Rightarrow> 'a option" where
  "Heap_GetByKey h k = map_option obj (items h k)"

definition Heap_Get :: "'a Heap \<Rightarrow> 'a \<Rightarrow> 'a heap_error + 'a option" where
  "Heap_Get h x =
     (case keyFunc h x of
        Inl err \<Rightarrow> Inl (KeyError x err)
      | Inr k \<Rightarrow> Inr (Heap_GetByKey h k))"

text \<open>\<open>ks\<close> is the order in which the \<^verbatim>\<open>range\<close> statement visits the map.\<close>

definition Heap_List :: "string list \<Rightarrow> 'a Heap \<Rightarrow> 'a list" where
  "Heap_List ks h = List.map_filter (\<lambda>k. map_option obj (items h k)) ks"

definition Heap_Len :: "'a Heap \<Rightarrow> nat" where
  "Heap_Len h = length (queue h)"

definition NewWithRecorder ::
  "('a \<Rightarrow> string + string) \<Rightarrow> ('a \<Rightarrow> 'a \<Rightarrow> bool go) \<Rightarrow> 'a Heap" where
  "NewWithRecorder keyFn lessFn =
     \<lparr>items = Map.empty, queue = [], keyFunc = keyFn, lessFunc = lessFn\<rparr>"

definition Heap_New :: "('a \<Rightarrow> string + string) \<Rightarrow> ('a \<Rightarrow> 'a \<Rightarrow> bool go) \<Rightarrow> 'a Heap" where
  "Heap_New keyFn lessFn = NewWithRecorder keyFn lessFn"

lemmas data_defs = data_Less_def data_Len_def set_index_def data_Swap_def data_Push_def
  data_Pop_def data_Peek_def
lemmas heap_defs = heap_down_def heap_Push_def heap_Pop_def heap_Fix_def heap_Remove_def
lemmas Heap_defs = Heap_Add_def Heap_AddIfNotPresent_def Heap_Update_def Heap_Delete_def
  Heap_Peek_def Heap_Pop_def Heap_GetByKey_def Heap_Get_def Heap_List_def Heap_Len_def
  NewWithRecorder_def Heap_New_def

section \<open>What every operation leaves alone, whatever state the heap is in\<close>

definition same_funcs :: "'a data \<Rightarrow> 'a data \<Rightarrow> bool" where
  "same_funcs h h' \<longleftrightarrow> keyFunc h' = keyFunc h \<and> lessFunc h' = lessFunc h"

lemma data_Swap_frame:
  assumes "data_Swap h i j = Ok h'"
  shows "same_funcs h h' \<and> length (queue h') = length (queue h)"
  using assms
  by (auto simp: data_Swap_def set_index_def same_funcs_def Let_def go_simps split: option.splits)

text \<open>Inversion of the two loops: either nothing moved, or one swap and the rest of the loop.\<close>

lemma heap_up_inv:
  assumes "heap_up h j = Ok h'"
  shows "h' = h \<or> (\<exists>i h1. i < j \<and> data_Swap h i j = Ok h1 \<and> heap_up h1 i = Ok h')"
proof (cases "j = 0")
  case True
  with assms show ?thesis by simp
next
  case False
  then have "(j - 1) div 2 < j" by auto
  with assms show ?thesis by (force simp: heap_up.simps [of h j] Let_def go_simps split: if_splits)
qed

lemma heap_down_loop_inv:
  assumes "heap_down_loop h i n = Ok (h', i')"
  shows "h' = h \<or> (\<exists>j h1. i < j \<and> i < n \<and> data_Swap h i j = Ok h1 \<and> heap_down_loop h1 j n = Ok (h', i'))"
proof (cases "n \<le> 2 * i + 1")
  case True
  with assms show ?thesis by (simp add: heap_down_loop.simps [of h i n])
next
  case False
  with assms obtain j where "(h' = h \<or> (\<exists>h1. data_Swap h i j = Ok h1 \<and> heap_down_loop h1 j n = Ok (h', i')))"
    "j = 2 * i + 1 \<or> j = 2 * i + 2"
    by (auto simp: heap_down_loop.simps [of h i n] Let_def go_bind_eq_Ok split: if_splits)
  moreover from this False have "i < j" "i < n" by auto
  ultimately show ?thesis by blast
qed

lemma heap_up_frame:
  "heap_up h j = Ok h' \<Longrightarrow> same_funcs h h' \<and> length (queue h') = length (queue h)"
proof (induction j arbitrary: h rule: less_induct)
  case (less j)
  from heap_up_inv [OF less.prems] less.IH show ?case
    by (auto simp: same_funcs_def dest!: data_Swap_frame)
qed

lemma heap_down_loop_frame:
  "heap_down_loop h i n = Ok (h', i') \<Longrightarrow> same_funcs h h' \<and> length (queue h') = length (queue h)"
proof (induction "n - i" arbitrary: h i rule: less_induct)
  case less
  from heap_down_loop_inv [OF less.prems] show ?case
  proof (elim disjE exE conjE)
    fix j h1 assume *: "i < j" "i < n" "data_Swap h i j = Ok h1"
      and rest: "heap_down_loop h1 j n = Ok (h', i')"
    then have "same_funcs h1 h' \<and> length (queue h') = length (queue h1)"
      using less.hyps [OF _ rest] by (simp add: diff_less_mono2)
    with data_Swap_frame [OF *(3)] show ?thesis by (simp add: same_funcs_def)
  qed (simp add: same_funcs_def)
qed

lemma heap_down_up_frame:
  assumes "go_bind (heap_down h i n) (\<lambda>(h1, moved). if \<not> moved then heap_up h1 i else Ok h1) = Ok h'"
  shows "same_funcs h h' \<and> length (queue h') = length (queue h)"
proof -
  from assms obtain h1 j where h1: "heap_down_loop h i n = Ok (h1, j)"
    and "h' = h1 \<or> heap_up h1 i = Ok h'"
    by (auto simp: heap_down_def go_simps split: if_splits)
  then show ?thesis
    using heap_down_loop_frame [OF h1] heap_up_frame unfolding same_funcs_def by metis
qed

lemma data_Pop_frame:
  assumes "data_Pop h = Ok (h', x)"
  shows "same_funcs h h' \<and> length (queue h') < length (queue h)"
  using assms by (auto simp: data_Pop_def same_funcs_def Let_def split: if_splits option.splits)

text \<open>Popping makes the heap shorter even where the key index is broken.\<close>

lemma Heap_Pop_frame:
  assumes "Heap_Pop h = Ok (h', r)"
  shows "same_funcs h h' \<and> length (queue h') < length (queue h)"
proof -
  from assms obtain h1 h2 i x where "data_Swap h 0 (data_Len h - 1) = Ok h1"
    "heap_down_loop h1 0 (data_Len h - 1) = Ok (h2, i)" "data_Pop h2 = Ok (h', x)"
    by (auto simp: Heap_Pop_def heap_Pop_def heap_down_def Let_def go_simps split: if_splits option.splits)
  then show ?thesis
    using data_Swap_frame heap_down_loop_frame data_Pop_frame unfolding same_funcs_def by metis
qed

end
