(* ===== verification/Array_Heap.thy ===== *)
theory Array_Heap
  imports Prelude
begin

text \<open>
  The algorithms of Go's \<^verbatim>\<open>container/heap\<close> on a plain list: \<open>sift_up\<close> is the loop of
  \<^verbatim>\<open>up\<close>, \<open>sift_down\<close> the loop of \<^verbatim>\<open>down\<close>, for any strict weak order. The theory
  shows that each repairs a heap with one defect, keeps the elements and leaves the part of the
  array beyond the heap alone. The model of \<^verbatim>\<open>heap.go\<close>, with its key index and its
  panics, is refined to these functions in theory \<^verbatim>\<open>Heap_Contract\<close>.
\<close>

section \<open>The two loops\<close>

definition parent :: "nat \<Rightarrow> nat" where
  "parent k = (k - 1) div 2"

lemma parent_less [simp]: "0 < k \<Longrightarrow> parent k < k"
  by (simp add: parent_def less_mult_imp_div_less)

lemma parent_eq_self_iff [simp]: "parent k = k \<longleftrightarrow> k = 0"
  by (metis parent_less less_irrefl_nat not_gr_zero parent_def div_0 diff_0_eq_0)

lemma self_eq_parent_iff [simp]: "k = parent k \<longleftrightarrow> k = 0"
  by (metis parent_eq_self_iff)

lemma parent_bound [simp]: "k < n \<Longrightarrow> parent k < n"
  by (simp add: parent_def)

lemma parent_0 [simp]: "parent 0 = 0"
  by (simp add: parent_def)

lemma parent_children [simp]: "parent (2 * i + 1) = i" "parent (2 * i + 2) = i"
  by (simp_all add: parent_def)

lemma parent_Suc_children [simp]: "parent (Suc (2 * i)) = i" "parent (Suc (Suc (2 * i))) = i"
  by (simp_all add: parent_def)

lemma children_of_parent: "0 < k \<Longrightarrow> parent k = i \<longleftrightarrow> k = 2 * i + 1 \<or> k = 2 * i + 2"
  by (auto simp: parent_def)

function sift_up :: "('a \<Rightarrow> 'a \<Rightarrow> bool) \<Rightarrow> 'a list \<Rightarrow> nat \<Rightarrow> 'a list" where
  "sift_up lt xs j =
     (if j = 0 \<or> \<not> lt (xs ! j) (xs ! parent j) then xs
      else sift_up lt (swap_at (parent j) j xs) (parent j))"
  by pat_completeness auto
termination
  by (relation "measure (\<lambda>(lt, xs, j). j)") auto

declare sift_up.simps [simp del]

definition min_child :: "('a \<Rightarrow> 'a \<Rightarrow> bool) \<Rightarrow> 'a list \<Rightarrow> nat \<Rightarrow> nat \<Rightarrow> nat" where
  "min_child lt xs i n =
     (if 2 * i + 2 < n \<and> lt (xs ! (2 * i + 2)) (xs ! (2 * i + 1)) then 2 * i + 2 else 2 * i + 1)"

lemma min_child_bounds: "2 * i + 1 < n \<Longrightarrow> i < min_child lt xs i n \<and> min_child lt xs i n < n"
  by (auto simp: min_child_def)

lemma parent_min_child [simp]: "parent (min_child lt xs i n) = i"
  by (simp add: min_child_def)

lemma min_child_pos [simp]: "0 < min_child lt xs i n"
  by (simp add: min_child_def)

function sift_down :: "('a \<Rightarrow> 'a \<Rightarrow> bool) \<Rightarrow> 'a list \<Rightarrow> nat \<Rightarrow> nat \<Rightarrow> 'a list \<times> nat" where
  "sift_down lt xs i n =
     (if n \<le> 2 * i + 1 \<or> \<not> lt (xs ! min_child lt xs i n) (xs ! i) then (xs, i)
      else sift_down lt (swap_at i (min_child lt xs i n) xs) (min_child lt xs i n) n)"
  by pat_completeness auto
termination
proof (relation "measure (\<lambda>(lt, xs, i, n). n - i)", goal_cases)
  case (2 lt xs i n)
  then show ?case using min_child_bounds [of i n lt xs] by (auto intro: diff_less_mono2)
qed simp

declare sift_down.simps [simp del]

section \<open>Frame: both loops permute the array inside the heap\<close>

lemma sift_up_mset:
  "j < length xs \<Longrightarrow> mset (sift_up lt xs j) = mset xs"
proof (induction lt xs j rule: sift_up.induct)
  case (1 lt xs j)
  show ?case
  proof (cases "j = 0 \<or> \<not> lt (xs ! j) (xs ! parent j)")
    case False
    with 1 show ?thesis by (simp add: sift_up.simps [of lt xs j])
  qed (auto simp: sift_up.simps [of lt xs j])
qed

lemma sift_up_length [simp]: "length (sift_up lt xs j) = length xs"
proof (induction lt xs j rule: sift_up.induct)
  case (1 lt xs j)
  then show ?case
    by (cases "j = 0 \<or> \<not> lt (xs ! j) (xs ! parent j)") (auto simp: sift_up.simps [of lt xs j])
qed

lemma sift_up_above:
  "j < k \<Longrightarrow> sift_up lt xs j ! k = xs ! k"
proof (induction lt xs j rule: sift_up.induct)
  case (1 lt xs j)
  show ?case
  proof (cases "j = 0 \<or> \<not> lt (xs ! j) (xs ! parent j)")
    case False
    then have "parent j < j" by simp
    with 1 False show ?thesis
      by (simp add: sift_up.simps [of lt xs j] swap_at_def)
  qed (auto simp: sift_up.simps [of lt xs j])
qed

lemma sift_down_frame:
  assumes "sift_down lt xs i n = (ys, i')" "i < n" "n \<le> length xs"
  shows "mset ys = mset xs \<and> length ys = length xs \<and> i \<le> i' \<and> (\<forall>k\<ge>n. ys ! k = xs ! k)"
  using assms
proof (induction lt xs i n rule: sift_down.induct)
  case (1 lt xs i n)
  show ?case
  proof (cases "n \<le> 2 * i + 1 \<or> \<not> lt (xs ! min_child lt xs i n) (xs ! i)")
    case True
    then show ?thesis using "1.prems" by (simp add: sift_down.simps [of lt xs i n])
  next
    case False
    let ?c = "min_child lt xs i n"
    from False have c: "i < ?c" "?c < n" using min_child_bounds [of i n lt xs] by auto
    have "mset ys = mset (swap_at i ?c xs) \<and> length ys = length (swap_at i ?c xs) \<and> ?c \<le> i'
        \<and> (\<forall>k\<ge>n. ys ! k = swap_at i ?c xs ! k)"
      using "1.IH" [OF False] "1.prems" False c by (simp add: sift_down.simps [of lt xs i n])
    then show ?thesis using c "1.prems"
      by (auto simp: swap_at_def mset_swap)
  qed
qed

section \<open>Heap order and its single defects\<close>

definition edge_ok :: "('a \<Rightarrow> 'a \<Rightarrow> bool) \<Rightarrow> 'a list \<Rightarrow> nat \<Rightarrow> bool" where
  "edge_ok lt xs k \<longleftrightarrow> \<not> lt (xs ! k) (xs ! parent k)"

definition heap_upto :: "('a \<Rightarrow> 'a \<Rightarrow> bool) \<Rightarrow> 'a list \<Rightarrow> nat \<Rightarrow> bool" where
  "heap_upto lt xs n \<longleftrightarrow> (\<forall>k<n. 0 < k \<longrightarrow> edge_ok lt xs k)"

text \<open>The children of the defective position are in order with its parent.\<close>

definition bridge_ok :: "('a \<Rightarrow> 'a \<Rightarrow> bool) \<Rightarrow> 'a list \<Rightarrow> nat \<Rightarrow> nat \<Rightarrow> bool" where
  "bridge_ok lt xs n i \<longleftrightarrow>
     (0 < i \<longrightarrow> (\<forall>k<n. 0 < k \<longrightarrow> parent k = i \<longrightarrow> \<not> lt (xs ! k) (xs ! parent i)))"

text \<open>The element at \<open>i\<close> may be too small for its parent.\<close>

definition up_defect :: "('a \<Rightarrow> 'a \<Rightarrow> bool) \<Rightarrow> 'a list \<Rightarrow> nat \<Rightarrow> nat \<Rightarrow> bool" where
  "up_defect lt xs n i \<longleftrightarrow>
     (\<forall>k<n. 0 < k \<longrightarrow> k \<noteq> i \<longrightarrow> edge_ok lt xs k) \<and> bridge_ok lt xs n i"

text \<open>The element at \<open>i\<close> may be out of order with its parent and with its children.\<close>

definition hole :: "('a \<Rightarrow> 'a \<Rightarrow> bool) \<Rightarrow> 'a list \<Rightarrow> nat \<Rightarrow> nat \<Rightarrow> bool" where
  "hole lt xs n i \<longleftrightarrow>
     (\<forall>k<n. 0 < k \<longrightarrow> k \<noteq> i \<longrightarrow> parent k \<noteq> i \<longrightarrow> edge_ok lt xs k) \<and> bridge_ok lt xs n i"

lemmas defect_defs = edge_ok_def heap_upto_def bridge_ok_def up_defect_def hole_def

lemma heap_upto_mono: "heap_upto lt xs n \<Longrightarrow> m \<le> n \<Longrightarrow> heap_upto lt xs m"
  by (simp add: heap_upto_def)

lemma heap_upto_cong:
  assumes "heap_upto lt xs n" "\<And>k. k < n \<Longrightarrow> ys ! k = xs ! k"
  shows "heap_upto lt ys n"
  unfolding heap_upto_def edge_ok_def
proof (intro allI impI)
  fix k assume k: "k < n" "0 < k"
  then have "parent k < n" using parent_less less_trans by blast
  with k assms show "\<not> lt (ys ! k) (ys ! parent k)" by (simp add: heap_upto_def edge_ok_def)
qed

lemma heap_upto_imp_up_defect_0: "up_defect lt xs n 0 \<Longrightarrow> heap_upto lt xs n"
  by (auto simp: defect_defs)

context strict_weak_order
begin

lemma heap_root_min:
  assumes "heap_upto lt xs n" "k < n"
  shows "\<not> lt (xs ! k) (xs ! 0)"
  using assms(2)
proof (induction k rule: less_induct)
  case (less k)
  show ?case
  proof (cases "k = 0")
    case False
    then have "\<not> lt (xs ! parent k) (xs ! 0)" "\<not> lt (xs ! k) (xs ! parent k)"
      using less parent_less [of k] assms(1) by (auto simp: heap_upto_def edge_ok_def)
    then show ?thesis by (rule not_lt_trans)
  qed (simp add: lt_irrefl)
qed

lemma heap_bridge_ok:
  assumes "heap_upto lt xs n" "i < n"
  shows "bridge_ok lt xs n i"
  unfolding bridge_ok_def
proof (intro impI allI)
  fix k assume *: "0 < i" "k < n" "0 < k" "parent k = i"
  then have "\<not> lt (xs ! k) (xs ! i)" "\<not> lt (xs ! i) (xs ! parent i)"
    using assms by (auto simp: heap_upto_def edge_ok_def)
  then show "\<not> lt (xs ! k) (xs ! parent i)" using not_lt_trans by blast
qed

text \<open>Overwriting one element of a heap leaves a hole there.\<close>

lemma hole_after_update:
  assumes "heap_upto lt xs n" "i < n" "\<And>k. k < n \<Longrightarrow> k \<noteq> i \<Longrightarrow> ys ! k = xs ! k"
  shows "hole lt ys n i"
proof -
  have "edge_ok lt ys k" if "k < n" "0 < k" "k \<noteq> i" "parent k \<noteq> i" for k
  proof -
    from that have "parent k < n" using parent_less less_trans by blast
    with that assms show ?thesis by (simp add: heap_upto_def edge_ok_def)
  qed
  moreover have "bridge_ok lt ys n i"
  proof (unfold bridge_ok_def, intro impI allI)
    fix k assume *: "0 < i" "k < n" "0 < k" "parent k = i"
    moreover have "k \<noteq> i" using * by auto
    moreover have "parent i < n" "parent i \<noteq> i"
      using * assms(2) by auto
    ultimately show "\<not> lt (ys ! k) (ys ! parent i)"
      using heap_bridge_ok [OF assms(1,2)] assms(3) by (simp add: bridge_ok_def)
  qed
  ultimately show ?thesis by (simp add: hole_def)
qed

section \<open>Sifting repairs one defect\<close>

lemma nth_swap_parent:
  assumes "j < n" "n \<le> length xs" "0 < j" "k < n"
  shows "swap_at (parent j) j xs ! k = (if k = parent j then xs ! j else if k = j then xs ! parent j else xs ! k)"
  using assms less_trans [OF parent_less, of j n] by (intro nth_swap_at) auto

lemma swap_up_edge:
  assumes "up_defect lt xs n j" "j < n" "n \<le> length xs" "0 < j" "lt (xs ! j) (xs ! parent j)"
    and k: "k < n" "0 < k" "k \<noteq> parent j"
  shows "edge_ok lt (swap_at (parent j) j xs) k"
proof -
  note nth = nth_swap_parent [OF assms(2-4)]
  have p: "parent j < j" "parent j < n" using assms(2,4) by auto
  show ?thesis
  proof (cases "k = j")
    case True
    then show ?thesis using nth [OF assms(2)] nth [OF p(2)] p assms(5) lt_asym by (auto simp: edge_ok_def)
  next
    case False
    have edge: "edge_ok lt xs k" using assms(1) k False by (simp add: up_defect_def)
    have pk: "parent k < n" using k parent_less less_trans by blast
    consider "parent k = j" | "parent k = parent j" | "parent k \<noteq> j" "parent k \<noteq> parent j" by blast
    then show ?thesis
    proof cases
      case 1
      then show ?thesis using assms(1,2,4) k False p nth [OF k(1)] nth [OF assms(2)]
        by (auto simp: edge_ok_def up_defect_def bridge_ok_def)
    next
      case 2
      then have "\<not> lt (xs ! k) (xs ! j)" using edge assms(5) lt_trans by (auto simp: edge_ok_def)
      then show ?thesis using 2 nth [OF k(1)] nth [OF p(2)] k False by (simp add: edge_ok_def)
    next
      case 3
      then show ?thesis using edge nth [OF k(1)] nth [OF pk] k False by (simp add: edge_ok_def)
    qed
  qed
qed

lemma swap_up_bridge:
  assumes "up_defect lt xs n j" "j < n" "n \<le> length xs" "0 < j"
  shows "bridge_ok lt (swap_at (parent j) j xs) n (parent j)"
proof (unfold bridge_ok_def, intro impI allI)
  let ?p = "parent j" and ?ys = "swap_at (parent j) j xs"
  fix k assume *: "0 < ?p" "k < n" "0 < k" "parent k = ?p"
  note nth = nth_swap_parent [OF assms(2-4)]
  have p: "?p < j" "?p < n" "parent ?p < ?p" using assms(2,4) *(1) by auto
  have edge: "edge_ok lt xs k'" if "k' < n" "0 < k'" "k' \<noteq> j" for k' using assms(1) that by (simp add: up_defect_def)
  have top: "\<not> lt (xs ! ?p) (xs ! parent ?p)" using edge [OF p(2) *(1)] p by (simp add: edge_ok_def)
  have ppn: "?ys ! parent ?p = xs ! parent ?p" using nth [of "parent ?p"] p by simp
  show "\<not> lt (?ys ! k) (?ys ! parent ?p)"
  proof (cases "k = j")
    case True
    then show ?thesis using nth [OF *(2)] top ppn p by simp
  next
    case False
    have "\<not> lt (xs ! k) (xs ! ?p)" using edge [OF *(2,3) False] * by (simp add: edge_ok_def)
    with top have "\<not> lt (xs ! k) (xs ! parent ?p)" using not_lt_trans by blast
    moreover have "k \<noteq> ?p" using *(1,4) by auto
    ultimately show ?thesis using nth [OF *(2)] ppn False by simp
  qed
qed

lemma swap_up_defect:
  assumes "up_defect lt xs n j" "j < n" "n \<le> length xs" "0 < j" "lt (xs ! j) (xs ! parent j)"
  shows "up_defect lt (swap_at (parent j) j xs) n (parent j)"
  using swap_up_edge [OF assms] swap_up_bridge [OF assms(1-4)] unfolding up_defect_def by blast

lemma sift_up_repairs:
  "up_defect lt xs n j \<Longrightarrow> j < n \<Longrightarrow> n \<le> length xs \<Longrightarrow> heap_upto lt (sift_up lt xs j) n"
proof (induction j arbitrary: xs rule: less_induct)
  case (less j)
  show ?case
  proof (cases "j = 0 \<or> \<not> lt (xs ! j) (xs ! parent j)")
    case True
    with less.prems have "heap_upto lt xs n" by (auto simp: defect_defs)
    with True show ?thesis by (simp add: sift_up.simps [of lt xs j])
  next
    case False
    then have "up_defect lt (swap_at (parent j) j xs) n (parent j)"
      using less.prems swap_up_defect by blast
    moreover have "parent j < j" "parent j < n"
      using False less.prems(2) by auto
    ultimately have "heap_upto lt (sift_up lt (swap_at (parent j) j xs) (parent j)) n"
      using less by simp
    with False show ?thesis by (simp add: sift_up.simps [of lt xs j])
  qed
qed

text \<open>After one step down the defect is a hole whose own edge upwards is in order.\<close>

lemma min_child_least:
  assumes "2 * i + 1 < n" "k < n" "0 < k" "parent k = i"
  shows "\<not> lt (xs ! k) (xs ! min_child lt xs i n)"
  using assms lt_asym lt_irrefl by (auto simp: children_of_parent min_child_def)

lemma swap_down_hole:
  assumes "hole lt xs n i" "i < n" "n \<le> length xs" "2 * i + 1 < n"
    and "lt (xs ! min_child lt xs i n) (xs ! i)"
  shows "hole lt (swap_at i (min_child lt xs i n) xs) n (min_child lt xs i n)
       \<and> edge_ok lt (swap_at i (min_child lt xs i n) xs) (min_child lt xs i n)"
proof -
  let ?c = "min_child lt xs i n" and ?ys = "swap_at i (min_child lt xs i n) xs"
  have c: "i < ?c" "?c < n" using min_child_bounds [OF assms(4)] by auto
  have nth: "?ys ! k = (if k = i then xs ! ?c else if k = ?c then xs ! i else xs ! k)"
    if "k < n" for k
    using that assms c by (intro nth_swap_at) auto
  have edge: "edge_ok lt xs k" if "k < n" "0 < k" "k \<noteq> i" "parent k \<noteq> i" for k
    using assms(1) that by (simp add: hole_def)
  have edge_c: "edge_ok lt ?ys ?c"
    using nth [OF c(2)] nth [OF assms(2)] c assms(5) lt_asym by (auto simp: edge_ok_def)
  have "edge_ok lt ?ys k" if k: "k < n" "0 < k" "k \<noteq> ?c" "parent k \<noteq> ?c" for k
  proof -
    have pk: "parent k < n" using k parent_less less_trans by blast
    consider "k = i" | "k \<noteq> i" "parent k = i" | "k \<noteq> i" "parent k \<noteq> i" by blast
    then show ?thesis
    proof cases
      case 1
      then have "parent i \<noteq> i" "parent i \<noteq> ?c" "parent i < n" using k c pk by auto
      moreover have "\<not> lt (xs ! ?c) (xs ! parent i)"
        using assms(1) c 1 k by (simp add: hole_def bridge_ok_def)
      ultimately show ?thesis using 1 nth [OF k(1)] nth [of "parent i"] by (simp add: edge_ok_def)
    next
      case 2
      then have "\<not> lt (xs ! k) (xs ! ?c)" using min_child_least [OF assms(4) k(1,2)] by simp
      then show ?thesis using 2 k nth [OF k(1)] nth [OF assms(2)] by (simp add: edge_ok_def)
    next
      case 3
      then show ?thesis using edge [OF k(1,2)] nth [OF k(1)] nth [OF pk] k by (simp add: edge_ok_def)
    qed
  qed
  moreover have "bridge_ok lt ?ys n ?c"
  proof (unfold bridge_ok_def, intro impI allI)
    fix k assume *: "0 < ?c" "k < n" "0 < k" "parent k = ?c"
    then have "k \<noteq> i" "k \<noteq> ?c" "parent k \<noteq> i" using c parent_less [of k] by auto
    then show "\<not> lt (?ys ! k) (?ys ! parent ?c)"
      using edge [OF *(2,3)] * nth [OF *(2)] nth [OF assms(2)] by (simp add: edge_ok_def)
  qed
  ultimately show ?thesis using edge_c by (simp add: hole_def)
qed

text \<open>
  What \<open>sift_down\<close> leaves: when it did not move, only the edge above \<open>i\<close> may be wrong; when it
  moved, or that edge was in order before, the heap is repaired.
\<close>

lemma sift_down_repairs:
  assumes "sift_down lt xs i n = (ys, i')" "hole lt xs n i" "i < n" "n \<le> length xs"
  shows "(i' = i \<longrightarrow> ys = xs \<and> up_defect lt xs n i) \<and>
         (i < i' \<or> i = 0 \<or> edge_ok lt xs i \<longrightarrow> heap_upto lt ys n)"
  using assms
proof (induction "n - i" arbitrary: xs i rule: less_induct)
  case less
  let ?c = "min_child lt xs i n"
  show ?case
  proof (cases "n \<le> 2 * i + 1 \<or> \<not> lt (xs ! ?c) (xs ! i)")
    case True
    then have out: "ys = xs" "i' = i" using less.prems(1) by (simp_all add: sift_down.simps [of lt xs i n])
    have "edge_ok lt xs k" if k: "k < n" "0 < k" "parent k = i" for k
    proof -
      have "2 * i + 1 < n" using k by (auto simp: children_of_parent)
      with True have "\<not> lt (xs ! ?c) (xs ! i)" "\<not> lt (xs ! k) (xs ! ?c)"
        using min_child_least k by auto
      then show ?thesis using k not_lt_trans by (auto simp: edge_ok_def)
    qed
    then have "up_defect lt xs n i" using less.prems(2) by (auto simp: up_defect_def hole_def)
    then show ?thesis using out by (auto simp: up_defect_def heap_upto_def)
  next
    case False
    then have c: "i < ?c" "?c < n" using min_child_bounds [of i n lt xs] by auto
    have step: "sift_down lt (swap_at i ?c xs) ?c n = (ys, i')"
      using False less.prems(1) by (simp add: sift_down.simps [of lt xs i n])
    have "hole lt (swap_at i ?c xs) n ?c \<and> edge_ok lt (swap_at i ?c xs) ?c"
      using swap_down_hole less.prems False by simp
    then have "heap_upto lt ys n" using less.hyps [OF _ step] c less.prems by simp
    moreover have "?c \<le> i'" using sift_down_frame [OF step] c less.prems by simp
    ultimately show ?thesis using c by simp
  qed
qed

text \<open>The composition used by \<^verbatim>\<open>Fix\<close> and \<^verbatim>\<open>Remove\<close>: down, and up if nothing moved.\<close>

lemma sift_both_repairs:
  assumes "sift_down lt xs i n = (ys, i')" "hole lt xs n i" "i < n" "n \<le> length xs"
  shows "heap_upto lt (if i < i' then ys else sift_up lt ys i) n"
  using sift_down_repairs [OF assms] sift_down_frame [OF assms(1,3,4)] assms(3,4)
    sift_up_repairs [of xs n i]
  by (auto simp: order.order_iff_strict)

end

end
