(* ===== verification/Heap_Contract.thy ===== *)
theory Heap_Contract
  imports Go_Heap Array_Heap
begin

text \<open>
  The contract of \<^verbatim>\<open>pkg/queue/heap\<close>. The key index of a well-formed heap agrees with its queue
  (\<open>index_ok\<close>: "items in the map are in the queue and vice versa", with the stored positions);
  \<open>entries\<close> reads the queue as a list of keys and objects. On well-formed heaps no method panics
  and each container/heap function is the list function of theory \<^verbatim>\<open>Array_Heap\<close> on the
  entries. The exported methods implement a finite map from keys to objects with a least element:
  locale \<open>indexed_heap\<close> states this interface, proves what its clients use, and is interpreted for
  every comparison function that is a strict weak order.
\<close>

section \<open>Well-formed heaps and their entries\<close>

definition index_ok :: "'a data \<Rightarrow> bool" where
  "index_ok h \<longleftrightarrow>
     (\<forall>i<length (queue h). \<exists>x. items h (queue h ! i) = Some \<lparr>obj = x, index = i\<rparr>) \<and>
     dom (items h) \<subseteq> set (queue h)"

definition entries :: "'a data \<Rightarrow> (string \<times> 'a) list" where
  "entries h = map (\<lambda>k. (k, obj (the (items h k)))) (queue h)"

definition entry_lt :: "('a \<Rightarrow> 'a \<Rightarrow> bool) \<Rightarrow> string \<times> 'a \<Rightarrow> string \<times> 'a \<Rightarrow> bool" where
  "entry_lt lt p q \<longleftrightarrow> lt (snd p) (snd q)"

definition rep :: "('a \<Rightarrow> 'a \<Rightarrow> bool) \<Rightarrow> 'a data \<Rightarrow> (string \<times> 'a) list \<Rightarrow> bool" where
  "rep lt h xs \<longleftrightarrow> index_ok h \<and> lessFunc h = (\<lambda>x y. Ok (lt x y)) \<and> entries h = xs"

definition heap_inv :: "('a \<Rightarrow> string) \<Rightarrow> ('a \<Rightarrow> 'a \<Rightarrow> bool) \<Rightarrow> 'a data \<Rightarrow> bool" where
  "heap_inv kf lt h \<longleftrightarrow>
     rep lt h (entries h) \<and> keyFunc h = (\<lambda>x. Inr (kf x)) \<and>
     (\<forall>(k, x) \<in> set (entries h). kf x = k) \<and>
     heap_upto (entry_lt lt) (entries h) (length (entries h))"

lemma heapItem_set_obj: "item\<lparr>obj := x\<rparr> = \<lparr>obj = x, index = index item\<rparr>"
  by simp

lemma length_entries [simp]: "length (entries h) = length (queue h)"
  by (simp add: entries_def)

lemma fst_entries [simp]: "map fst (entries h) = queue h"
  by (simp add: entries_def comp_def)

lemma index_ok_nth:
  assumes "index_ok h" "i < length (queue h)"
  shows "items h (queue h ! i) = Some \<lparr>obj = snd (entries h ! i), index = i\<rparr>"
  using assms unfolding index_ok_def entries_def by fastforce

lemma index_ok_distinct:
  assumes "index_ok h"
  shows "distinct (queue h)"
  unfolding distinct_conv_nth
proof (intro allI impI notI)
  fix i j assume *: "i < length (queue h)" "j < length (queue h)" "i \<noteq> j" "queue h ! i = queue h ! j"
  with index_ok_nth [OF assms *(1)] index_ok_nth [OF assms *(2)] show False by simp
qed

lemma index_ok_items:
  assumes "index_ok h" "items h k = Some item"
  shows "index item < length (queue h) \<and> queue h ! index item = k \<and> entries h ! index item = (k, obj item)"
proof -
  from assms have "k \<in> set (queue h)" by (auto simp: index_ok_def)
  then obtain i where i: "i < length (queue h)" "queue h ! i = k" by (auto simp: in_set_conv_nth)
  then have "item = \<lparr>obj = snd (entries h ! i), index = i\<rparr>"
    using index_ok_nth [OF assms(1), of i] assms(2) by simp
  moreover have "fst (entries h ! i) = k" using i by (simp add: entries_def)
  ultimately show ?thesis using i by (auto simp: prod_eq_iff)
qed

lemma lookup_entries:
  assumes "index_ok h"
  shows "Heap_GetByKey h = map_of (entries h)"
proof
  fix k
  show "Heap_GetByKey h k = map_of (entries h) k"
  proof (cases "items h k")
    case None
    then have "k \<notin> set (queue h)" using assms index_ok_nth by (fastforce simp: in_set_conv_nth)
    then have "map_of (entries h) k = None" by (simp add: map_of_eq_None_iff flip: set_map)
    then show ?thesis using None by (simp add: Heap_GetByKey_def)
  next
    case (Some item)
    then have "entries h ! index item = (k, obj item)" "index item < length (entries h)"
      using index_ok_items [OF assms Some] by auto
    then have "(k, obj item) \<in> set (entries h)" by (metis nth_mem)
    then show ?thesis using Some index_ok_distinct [OF assms] by (simp add: Heap_GetByKey_def)
  qed
qed

text \<open>A permutation of the entries, or of a changed list of entries, has the map of that list.\<close>

lemma lookup_permuted:
  assumes "index_ok h" "mset (entries h) = mset zs" "distinct (map fst zs)"
  shows "Heap_GetByKey h = map_of zs"
  using assms lookup_entries index_ok_distinct map_of_inject_set [of "entries h" zs] mset_eq_setD
  by (metis fst_entries)

section \<open>Each function is a list function on the entries\<close>

lemma rep_Less:
  assumes "rep lt h xs" "i < length xs" "j < length xs"
  shows "data_Less h i j = Ok (entry_lt lt (xs ! i) (xs ! j))"
  using assms index_ok_nth [of h i] index_ok_nth [of h j]
  by (auto simp: rep_def data_Less_def entry_lt_def)

lemma set_index_Some:
  "items h k = Some item \<Longrightarrow> set_index h k i = Ok (h\<lparr>items := (items h)(k \<mapsto> item\<lparr>index := i\<rparr>)\<rparr>)"
  by (simp add: set_index_def)

text \<open>The data after \<^verbatim>\<open>Swap\<close>: the stored positions follow the two keys.\<close>

definition swapped :: "'a data \<Rightarrow> nat \<Rightarrow> nat \<Rightarrow> 'a data" where
  "swapped h i j =
     (let ki = queue h ! i; kj = queue h ! j in
      h\<lparr>queue := swap_at i j (queue h),
        items := (items h)(kj \<mapsto> \<lparr>obj = snd (entries h ! j), index = i\<rparr>,
                           ki \<mapsto> \<lparr>obj = snd (entries h ! i), index = j\<rparr>)\<rparr>)"

lemma data_Swap_swapped:
  assumes "index_ok h" "i < length (queue h)" "j < length (queue h)"
  shows "data_Swap h i j = Ok (swapped h i j)"
proof -
  have q: "(queue h)[i := queue h ! j, j := queue h ! i] = swap_at i j (queue h)"
    by (simp add: swap_at_def)
  have at: "swap_at i j (queue h) ! i = queue h ! j" "swap_at i j (queue h) ! j = queue h ! i"
    using assms by (simp_all add: nth_swap_at)
  have "queue h ! i = queue h ! j \<longleftrightarrow> i = j"
    using assms index_ok_distinct nth_eq_iff_index_eq by blast
  then show ?thesis
    using assms index_ok_nth [OF assms(1,2)] index_ok_nth [OF assms(1,3)]
    by (auto simp: data_Swap_def q at set_index_def swapped_def)
qed

lemma index_ok_swapped:
  assumes "index_ok h" "i < length (queue h)" "j < length (queue h)"
  shows "index_ok (swapped h i j)"
proof -
  have inj: "queue h ! a = queue h ! b \<longleftrightarrow> a = b" if "a < length (queue h)" "b < length (queue h)" for a b
    using that index_ok_distinct [OF assms(1)] nth_eq_iff_index_eq by blast
  show ?thesis
    unfolding index_ok_def
  proof (intro conjI allI impI)
    fix k assume "k < length (queue (swapped h i j))"
    then have k: "k < length (queue h)" by (simp add: swapped_def)
    show "\<exists>x. items (swapped h i j) (queue (swapped h i j) ! k) = Some \<lparr>obj = x, index = k\<rparr>"
      using assms k index_ok_nth [OF assms(1) k]
      by (auto simp: swapped_def Let_def nth_swap_at inj)
  next
    show "dom (items (swapped h i j)) \<subseteq> set (queue (swapped h i j))"
      using assms by (auto simp: swapped_def index_ok_def Let_def)
  qed
qed

lemma entries_swapped:
  assumes "index_ok h" "i < length (queue h)" "j < length (queue h)"
  shows "entries (swapped h i j) = swap_at i j (entries h)"
proof -
  have "obj (the (items (swapped h i j) k)) = obj (the (items h k))" for k
    using assms index_ok_nth [OF assms(1,2)] index_ok_nth [OF assms(1,3)]
    by (auto simp: swapped_def Let_def)
  then show ?thesis using assms
    by (simp add: entries_def map_swap_at) (simp add: swapped_def map_swap_at Let_def)
qed

lemma rep_Swap:
  assumes "rep lt h xs" "i < length xs" "j < length xs"
  shows "\<exists>h'. data_Swap h i j = Ok h' \<and> rep lt h' (swap_at i j xs)"
proof -
  have ij: "index_ok h" "i < length (queue h)" "j < length (queue h)"
    using assms by (auto simp: rep_def)
  moreover have "lessFunc (swapped h i j) = lessFunc h" by (simp add: swapped_def Let_def)
  ultimately show ?thesis
    using assms data_Swap_swapped [OF ij] index_ok_swapped [OF ij] entries_swapped [OF ij]
    by (auto simp: rep_def)
qed

lemma rep_up:
  "rep lt h xs \<Longrightarrow> j < length xs \<Longrightarrow>
   \<exists>h'. heap_up h j = Ok h' \<and> rep lt h' (sift_up (entry_lt lt) xs j)"
proof (induction j arbitrary: h xs rule: less_induct)
  case (less j)
  show ?case
  proof (cases "j = 0 \<or> \<not> entry_lt lt (xs ! j) (xs ! parent j)")
    case True
    moreover have "heap_up h j = Ok h"
      using True rep_Less [OF less.prems, of "parent j"] less.prems
      by (cases "j = 0") (auto simp: heap_up.simps [of h j] parent_def Let_def)
    ultimately show ?thesis using less.prems by (simp add: sift_up.simps [of _ xs j])
  next
    case False
    then have pj: "parent j < j" "parent j < length xs" using less.prems(2) by auto
    obtain h1 where h1: "data_Swap h (parent j) j = Ok h1" "rep lt h1 (swap_at (parent j) j xs)"
      using rep_Swap [OF less.prems(1) pj(2) less.prems(2)] by blast
    have "heap_up h j = heap_up h1 (parent j)"
      using False pj h1(1) rep_Less [OF less.prems pj(2)]
      by (simp add: heap_up.simps [of h j] Let_def parent_def)
    then show ?thesis
      using less.IH [OF pj(1) h1(2)] pj False by (simp add: sift_up.simps [of _ xs j])
  qed
qed

lemma rep_down_loop:
  "rep lt h xs \<Longrightarrow> n \<le> length xs \<Longrightarrow>
   \<exists>h'. heap_down_loop h i n = Ok (h', snd (sift_down (entry_lt lt) xs i n))
      \<and> rep lt h' (fst (sift_down (entry_lt lt) xs i n))"
proof (induction "n - i" arbitrary: h xs i rule: less_induct)
  case less
  let ?lt = "entry_lt lt"
  let ?c = "min_child ?lt xs i n"
  show ?case
  proof (cases "n \<le> 2 * i + 1")
    case True
    then show ?thesis using less.prems
      by (simp add: heap_down_loop.simps [of h i n] sift_down.simps [of ?lt xs i n])
  next
    case False
    have c: "i < ?c" "?c < n" using min_child_bounds [of i n ?lt xs] False by auto
    have right: "(if 2 * i + 1 + 1 < n then data_Less h (2 * i + 1 + 1) (2 * i + 1) else Ok False)
        = Ok (?c = 2 * i + 1 + 1)"
      using rep_Less [OF less.prems(1)] less.prems(2) by (simp add: min_child_def)
    have child: "(if ?c = 2 * i + 1 + 1 then 2 * i + 1 + 1 else 2 * i + 1) = ?c"
      by (simp add: min_child_def)
    have less_c: "data_Less h ?c i = Ok (?lt (xs ! ?c) (xs ! i))"
      using rep_Less [OF less.prems(1)] c less.prems(2) by simp
    have unfold: "heap_down_loop h i n =
        (if \<not> ?lt (xs ! ?c) (xs ! i) then Ok (h, i)
         else go_bind (data_Swap h i ?c) (\<lambda>h'. heap_down_loop h' ?c n))"
      by (simp only: heap_down_loop.simps [of h i n] Let_def if_not_P [OF False] right child less_c
          go_bind.simps)
    show ?thesis
    proof (cases "?lt (xs ! ?c) (xs ! i)")
      case True
      obtain h1 where h1: "data_Swap h i ?c = Ok h1" "rep lt h1 (swap_at i ?c xs)"
        using rep_Swap [OF less.prems(1), of i ?c] c less.prems(2) by auto
      have "n - ?c < n - i" using c by simp
      from less.hyps [OF this h1(2)] show ?thesis
        using True False unfold h1(1) less.prems(2) by (simp add: sift_down.simps [of ?lt xs i n])
    next
      case no: False
      then show ?thesis using unfold less.prems by (simp add: sift_down.simps [of ?lt xs i n])
    qed
  qed
qed

text \<open>Down from \<open>i\<close>, then up if nothing moved: the common part of \<^verbatim>\<open>Fix\<close> and \<^verbatim>\<open>Remove\<close>.\<close>

lemma rep_down_up:
  assumes "rep lt h xs" "n \<le> length xs" "i < n"
    and "strict_weak_order lt" "hole (entry_lt lt) xs n i"
  shows "\<exists>h' ys. go_bind (heap_down h i n) (\<lambda>(h1, moved). if \<not> moved then heap_up h1 i else Ok h1) = Ok h'
     \<and> rep lt h' ys \<and> mset ys = mset xs \<and> heap_upto (entry_lt lt) ys n \<and> (\<forall>k\<ge>n. ys ! k = xs ! k)"
proof -
  let ?lt = "entry_lt lt"
  have swo: "strict_weak_order ?lt"
    using pullback_strict_weak_order [OF assms(4), of snd] by (simp add: entry_lt_def [abs_def])
  obtain ys i' where sd: "sift_down ?lt xs i n = (ys, i')" by fastforce
  note fr = sift_down_frame [OF sd assms(3,2)]
  obtain h1 where h1: "heap_down_loop h i n = Ok (h1, i')" "rep lt h1 ys"
    using rep_down_loop [OF assms(1,2), of i] sd by auto
  have "heap_upto ?lt (if i < i' then ys else sift_up ?lt ys i) n"
    using strict_weak_order.sift_both_repairs [OF swo sd assms(5,3,2)] .
  moreover obtain h2 where "heap_up h1 i = Ok h2" "rep lt h2 (sift_up ?lt ys i)"
    using rep_up [OF h1(2), of i] fr assms(2,3) by auto
  ultimately show ?thesis
    using h1 fr assms(2,3) sift_up_mset [of i ys ?lt] sift_up_above [of i _ ?lt ys]
    by (cases "i < i'") (auto simp: heap_down_def)
qed

section \<open>The exported methods keep the invariant\<close>

lemma heap_invD:
  assumes "heap_inv kf lt h"
  shows "index_ok h" "lessFunc h = (\<lambda>x y. Ok (lt x y))" "keyFunc h = (\<lambda>x. Inr (kf x))"
    "heap_upto (entry_lt lt) (entries h) (length (queue h))"
    "\<And>k x. (k, x) \<in> set (entries h) \<Longrightarrow> kf x = k"
  using assms by (auto simp: heap_inv_def rep_def)

lemma heap_inv_keyed:
  assumes "heap_inv kf lt h" "Heap_GetByKey h k = Some x"
  shows "kf x = k"
  using assms heap_invD(1,5) lookup_entries by (metis map_of_SomeD)

text \<open>
  How a method re-establishes the invariant: its result represents a heap-ordered permutation of
  \<open>zs\<close>, a list of entries with distinct keys.
\<close>

lemma heap_inv_intro:
  assumes "rep lt h' ys" "mset ys = mset zs" "heap_upto (entry_lt lt) ys (length ys)"
    and "\<forall>(k, x) \<in> set zs. kf x = k" "distinct (map fst zs)" "keyFunc h' = (\<lambda>x. Inr (kf x))"
  shows "heap_inv kf lt h' \<and> Heap_GetByKey h' = map_of zs"
  using assms lookup_permuted [of h' zs] mset_eq_setD [OF assms(2)]
  by (auto simp: rep_def heap_inv_def)

lemma Heap_New_inv:
  "heap_inv kf lt (Heap_New (\<lambda>x. Inr (kf x)) (\<lambda>x y. Ok (lt x y)))
   \<and> Heap_GetByKey (Heap_New (\<lambda>x. Inr (kf x)) (\<lambda>x y. Ok (lt x y))) = Map.empty"
  by (auto simp: heap_inv_def rep_def index_ok_def entries_def heap_upto_def Heap_defs)

text \<open>A push under a new key appends its entry.\<close>

lemma rep_data_Push:
  assumes "heap_inv kf lt h" "k \<notin> set (queue h)"
  shows "rep lt (data_Push h \<lparr>kv_key = k, kv_obj = x\<rparr>) (entries h @ [(k, x)])"
proof -
  let ?h1 = "data_Push h \<lparr>kv_key = k, kv_obj = x\<rparr>"
  note inv = heap_invD [OF assms(1)]
  have "index_ok ?h1"
    unfolding index_ok_def
  proof (intro conjI allI impI)
    fix i assume "i < length (queue ?h1)"
    then show "\<exists>y. items ?h1 (queue ?h1 ! i) = Some \<lparr>obj = y, index = i\<rparr>"
      using assms(2) index_ok_nth [OF inv(1), of i] nth_mem [of i "queue h"]
      by (cases "i < length (queue h)") (auto simp: data_Push_def nth_append Let_def less_Suc_eq simp del: nth_mem)
  next
    show "dom (items ?h1) \<subseteq> set (queue ?h1)"
      using inv(1) by (auto simp: data_Push_def index_ok_def Let_def)
  qed
  moreover have "entries ?h1 = entries h @ [(k, x)]"
    using assms(2) by (auto simp: data_Push_def entries_def Let_def)
  ultimately show ?thesis using inv(2) by (simp add: rep_def data_Push_def Let_def)
qed

lemma heap_Push_inv:
  assumes "strict_weak_order lt" "heap_inv kf lt h" "items h (kf x) = None"
  shows "\<exists>h'. heap_Push h \<lparr>kv_key = kf x, kv_obj = x\<rparr> = Ok h' \<and> heap_inv kf lt h'
     \<and> Heap_GetByKey h' = (Heap_GetByKey h)(kf x \<mapsto> x)"
proof -
  note inv = heap_invD [OF assms(2)]
  let ?n = "length (queue h)" and ?lt = "entry_lt lt"
  let ?zs = "entries h @ [(kf x, x)]"
  define h1 where "h1 = data_Push h \<lparr>kv_key = kf x, kv_obj = x\<rparr>"
  have fresh: "kf x \<notin> set (queue h)"
    using assms(3) index_ok_nth [OF inv(1)] by (fastforce simp: in_set_conv_nth)
  have len: "length (queue h1) = Suc ?n" by (simp add: h1_def data_Push_def Let_def)
  have rep1: "rep lt h1 ?zs" using rep_data_Push [OF assms(2) fresh] by (simp add: h1_def)
  have swo: "strict_weak_order ?lt"
    using pullback_strict_weak_order [OF assms(1), of snd] by (simp add: entry_lt_def [abs_def])
  have "up_defect ?lt ?zs (Suc ?n) ?n"
    using inv(4) by (auto simp: defect_defs nth_append less_Suc_eq children_of_parent)
  then have "heap_upto ?lt (sift_up ?lt ?zs ?n) (Suc ?n)"
    using strict_weak_order.sift_up_repairs [OF swo] by simp
  moreover obtain h' where h': "heap_up h1 ?n = Ok h'" "rep lt h' (sift_up ?lt ?zs ?n)"
    using rep_up [OF rep1, of ?n] by auto
  moreover have "keyFunc h' = (\<lambda>x. Inr (kf x))"
    using heap_up_frame [OF h'(1)] inv(3) by (simp add: same_funcs_def h1_def data_Push_def Let_def)
  ultimately have "heap_inv kf lt h' \<and> Heap_GetByKey h' = map_of ?zs"
    using inv(5) fresh index_ok_distinct [OF inv(1)]
    by (intro heap_inv_intro [OF h'(2)]) (auto simp: sift_up_mset)
  moreover have "map_of ?zs = (map_of (entries h))(kf x \<mapsto> x)"
    using fresh map_of_eq_None_iff [of "entries h" "kf x"]
    by (auto simp: fun_eq_iff map_add_def map_of_append split: option.splits simp flip: set_map)
  ultimately show ?thesis
    using h' len by (simp add: heap_Push_def data_Len_def lookup_entries [OF inv(1)] flip: h1_def)
qed

lemma heap_Fix_inv:
  assumes "strict_weak_order lt" "heap_inv kf lt h" "items h (kf x) = Some item"
  shows "\<exists>h'. heap_Fix (h\<lparr>items := (items h)(kf x \<mapsto> item\<lparr>obj := x\<rparr>)\<rparr>) (index item) = Ok h'
     \<and> heap_inv kf lt h' \<and> Heap_GetByKey h' = (Heap_GetByKey h)(kf x \<mapsto> x)"
proof -
  note inv = heap_invD [OF assms(2)]
  let ?i = "index item" and ?lt = "entry_lt lt" and ?k = "kf x"
  define h1 where "h1 = h\<lparr>items := (items h)(?k \<mapsto> item\<lparr>obj := x\<rparr>)\<rparr>"
  let ?zs = "(entries h)[?i := (?k, x)]"
  have i: "?i < length (queue h)" "queue h ! ?i = ?k" using index_ok_items [OF inv(1) assms(3)] by auto
  have other: "queue h ! j = ?k \<longleftrightarrow> j = ?i" if "j < length (queue h)" for j
    using that i index_ok_distinct [OF inv(1)] nth_eq_iff_index_eq by metis
  have q: "queue h1 = queue h" by (simp add: h1_def)
  have ents: "entries h1 = ?zs"
    by (rule nth_equalityI) (use i other in \<open>auto simp: h1_def entries_def nth_list_update\<close>)
  have "index_ok h1"
    using inv(1) assms(3) other index_ok_nth [OF inv(1)] i
    by (auto simp: index_ok_def h1_def heapItem_set_obj)
  then have rep1: "rep lt h1 ?zs" using ents inv(2) by (simp add: rep_def h1_def)
  have "hole ?lt ?zs (length (queue h)) ?i"
    using pullback_strict_weak_order [OF assms(1), of snd] inv(4) i
    by (intro strict_weak_order.hole_after_update [where xs = "entries h"])
       (auto simp: entry_lt_def [abs_def])
  then obtain h' ys where h': "heap_Fix h1 ?i = Ok h'" "rep lt h' ys" "mset ys = mset ?zs"
    "heap_upto ?lt ys (length (queue h))"
    using rep_down_up [OF rep1, of "length (queue h)" ?i] assms(1) i q
    by (auto simp: heap_Fix_def data_Len_def)
  moreover have "keyFunc h' = (\<lambda>x. Inr (kf x))"
    using heap_down_up_frame [of h1 ?i "length (queue h)" h'] h'(1) q inv(3)
    by (simp add: heap_Fix_def data_Len_def same_funcs_def h1_def)
  moreover have "distinct (map fst ?zs)"
    using i index_ok_distinct [OF inv(1)] by (simp add: map_update flip: i(2))
  moreover have "length ys = length (queue h)"
    using h'(3) by (metis size_mset length_list_update length_entries)
  ultimately have "heap_inv kf lt h' \<and> Heap_GetByKey h' = map_of ?zs"
    using inv(5) by (intro heap_inv_intro [OF h'(2)]) (auto dest!: set_update_subset_insert [THEN subsetD])
  moreover have "Heap_GetByKey h1 = (Heap_GetByKey h)(?k \<mapsto> x)"
    by (simp add: Heap_GetByKey_def h1_def fun_eq_iff)
  then have "map_of ?zs = (map_of (entries h))(?k \<mapsto> x)"
    by (simp only: lookup_entries [OF \<open>index_ok h1\<close>] lookup_entries [OF inv(1)] ents)
  ultimately show ?thesis using h'(1) by (simp add: lookup_entries [OF inv(1)] flip: h1_def)
qed

text \<open>Taking the last entry off.\<close>

lemma rep_data_Pop:
  assumes "rep lt h ys" "ys \<noteq> []"
  shows "\<exists>h'. data_Pop h = Ok (h', Some (snd (last ys))) \<and> rep lt h' (butlast ys)"
proof -
  let ?k = "last (queue h)"
  from assms have ok: "index_ok h" and ents: "entries h = ys" and ne: "queue h \<noteq> []"
    by (auto simp: rep_def entries_def)
  have dist: "distinct (butlast (queue h))" "?k \<notin> set (butlast (queue h))"
    using index_ok_distinct [OF ok] ne
    by (auto simp: distinct_butlast) (metis append_butlast_last_id distinct.simps(2) distinct_append not_distinct_conv_prefix)
  have nth: "butlast (queue h) ! i = queue h ! i" if "i < length (queue h) - 1" for i
    using that by (simp add: nth_butlast)
  have item: "items h ?k = Some \<lparr>obj = snd (last ys), index = length (queue h) - 1\<rparr>"
    using index_ok_nth [OF ok, of "length (queue h) - 1"] ne ents assms(2)
    by (simp add: last_conv_nth flip: length_entries)
  define h' where "h' = h\<lparr>queue := butlast (queue h), items := (items h)(?k := None)\<rparr>"
  have "data_Pop h = Ok (h', Some (snd (last ys)))"
    using ne item by (simp add: data_Pop_def h'_def Let_def)
  moreover have "index_ok h'"
    unfolding index_ok_def
  proof (intro conjI allI impI)
    fix i assume i: "i < length (queue h')"
    then have "queue h' ! i \<noteq> ?k" using dist(2) nth_mem [of i "queue h'"] by (auto simp: h'_def simp del: nth_mem)
    then show "\<exists>x. items h' (queue h' ! i) = Some \<lparr>obj = x, index = i\<rparr>"
      using i index_ok_nth [OF ok, of i] nth [of i] by (auto simp: h'_def)
  next
    have "set (queue h) = insert ?k (set (butlast (queue h)))"
      using ne by (metis append_butlast_last_id insert_is_Un list.simps(15) set_append sup_commute empty_set)
    then show "dom (items h') \<subseteq> set (queue h')"
      using ok by (auto simp: index_ok_def h'_def)
  qed
  moreover have "entries h' = butlast (entries h)"
    using dist(2) by (auto simp: entries_def h'_def simp flip: map_butlast)
  ultimately show ?thesis using assms(1) ents by (auto simp: rep_def h'_def)
qed

text \<open>
  What \<^verbatim>\<open>Remove\<close> and \<^verbatim>\<open>Pop\<close> do after their repair: the entry to remove is the last one
  and the rest is in heap order.
\<close>

lemma pop_removed:
  assumes "heap_inv kf lt h" "i < length (queue h)" "entries h ! i = (k, x)"
    and "rep lt h2 ys" "mset ys = mset (entries h)" "ys ! (length (queue h) - 1) = (k, x)"
    and "heap_upto (entry_lt lt) ys (length (queue h) - 1)" "same_funcs h h2"
  shows "\<exists>h'. data_Pop h2 = Ok (h', Some x) \<and> heap_inv kf lt h'
     \<and> Heap_GetByKey h' = (Heap_GetByKey h)(k := None)"
proof -
  note inv = heap_invD [OF assms(1)]
  let ?zs = "filter (\<lambda>p. fst p \<noteq> k) (entries h)"
  have len: "length ys = length (queue h)" using assms(5) by (metis size_mset length_entries)
  then have "ys \<noteq> []" using assms(2) by auto
  then have last: "last ys = (k, x)" using assms(6) len by (simp add: last_conv_nth)
  obtain h' where h': "data_Pop h2 = Ok (h', Some x)" "rep lt h' (butlast ys)"
    using rep_data_Pop [OF assms(4) \<open>ys \<noteq> []\<close>] last by auto
  have "(k, x) \<in> set (entries h)" using assms(2,3) by (metis nth_mem length_entries)
  then have "mset (butlast ys) = mset ?zs"
    using mset_remove_key [of "entries h" k x] index_ok_distinct [OF inv(1)]
      mset_butlast_last [OF \<open>ys \<noteq> []\<close>] last assms(5) by simp
  moreover have "heap_upto (entry_lt lt) (butlast ys) (length (butlast ys))"
    using assms(7) len by (auto intro: heap_upto_cong simp: nth_butlast)
  moreover have "keyFunc h' = (\<lambda>x. Inr (kf x))"
    using data_Pop_frame [OF h'(1)] assms(8) inv(3) by (simp add: same_funcs_def)
  ultimately have "heap_inv kf lt h' \<and> Heap_GetByKey h' = map_of ?zs"
    using inv(5) index_ok_distinct [OF inv(1)]
    by (intro heap_inv_intro [OF h'(2)]) (auto simp: distinct_filter_keys)
  then show ?thesis
    using h'(1) lookup_entries [OF inv(1)] by (auto simp: map_of_filter_neq)
qed

lemma heap_Remove_inv:
  assumes "strict_weak_order lt" "heap_inv kf lt h" "i < length (queue h)" "entries h ! i = (k, x)"
  shows "\<exists>h'. heap_Remove h i = Ok (h', Some x) \<and> heap_inv kf lt h'
     \<and> Heap_GetByKey h' = (Heap_GetByKey h)(k := None)"
proof (cases "i = length (queue h) - 1")
  case True
  note inv = heap_invD [OF assms(2)]
  have "rep lt h (entries h)" using inv by (simp add: rep_def)
  with True show ?thesis
    using pop_removed [OF assms(2,3,4), of h "entries h"] assms(3,4) heap_upto_mono [OF inv(4)]
    by (auto simp: heap_Remove_def data_Len_def same_funcs_def Let_def)
next
  case False
  note inv = heap_invD [OF assms(2)]
  let ?n = "length (queue h) - 1" and ?lt = "entry_lt lt"
  have rep: "rep lt h (entries h)" using inv by (simp add: rep_def)
  have i: "i < ?n" "?n < length (entries h)" using False assms(3) by auto
  obtain h1 where h1: "data_Swap h i ?n = Ok h1" "rep lt h1 (swap_at i ?n (entries h))"
    using rep_Swap [OF rep, of i ?n] i by auto
  have "hole ?lt (swap_at i ?n (entries h)) ?n i"
    using pullback_strict_weak_order [OF assms(1), of snd] heap_upto_mono [OF inv(4), of ?n] i
    by (intro strict_weak_order.hole_after_update [where xs = "entries h"])
       (auto simp: entry_lt_def [abs_def] nth_swap_at)
  then obtain h2 ys where h2: "go_bind (heap_down h1 i ?n)
        (\<lambda>(h1, moved). if \<not> moved then heap_up h1 i else Ok h1) = Ok h2"
    "rep lt h2 ys" "mset ys = mset (swap_at i ?n (entries h))" "heap_upto ?lt ys ?n"
    "\<forall>k\<ge>?n. ys ! k = swap_at i ?n (entries h) ! k"
    using rep_down_up [OF h1(2), of ?n i] assms(1) i by auto
  have "same_funcs h h2"
    using heap_down_up_frame [OF h2(1)] data_Swap_frame [OF h1(1)] by (simp add: same_funcs_def)
  then obtain h' where "data_Pop h2 = Ok (h', Some x)" "heap_inv kf lt h'"
    "Heap_GetByKey h' = (Heap_GetByKey h)(k := None)"
    using pop_removed [OF assms(2,3,4) h2(2)] h2(3-5) i assms(4) by (auto simp: nth_swap_at)
  moreover have "heap_Remove h i = data_Pop h2"
    using h1(1) h2(1) assms(3) False by (auto simp: heap_Remove_def data_Len_def Let_def)
  ultimately show ?thesis by simp
qed

text \<open>\<^verbatim>\<open>heap.Pop\<close> removes the root as \<^verbatim>\<open>heap.Remove\<close> at 0 would: nothing can move up from there.\<close>

lemma heap_Pop_eq_Remove:
  assumes "index_ok h"
  shows "heap_Pop h = heap_Remove h 0"
proof (cases "length (queue h) = 1")
  case True
  then have "swapped h 0 0 = h"
    using index_ok_nth [OF assms, of 0] by (simp add: swapped_def Let_def fun_upd_idem)
  with True show ?thesis
    using data_Swap_swapped [OF assms, of 0 0]
    by (simp add: heap_Pop_def heap_Remove_def heap_down_def heap_down_loop.simps [of h 0 0] data_Len_def)
next
  case False
  then have "queue h = [] \<or> 1 < length (queue h)" by (cases "queue h") auto
  then show ?thesis
    by (auto simp: heap_Pop_def heap_Remove_def data_Len_def Let_def go_bind_assoc split_beta
        intro!: go_bind_cong)
qed

section \<open>The interface of the heap and what its clients use\<close>

text \<open>
  \<open>pop_n\<close> pops a number of objects one after the other, as the loops of
  \<^verbatim>\<open>heap_test.go\<close> do; an error result ends it with the panic of the type assertion
  applied to the nil object.
\<close>

fun pop_n :: "('h \<Rightarrow> ('h \<times> ('e + 'a)) go) \<Rightarrow> nat \<Rightarrow> 'h \<Rightarrow> ('h \<times> 'a list) go" where
  "pop_n pop 0 h = Ok (h, [])"
| "pop_n pop (Suc n) h =
     go_bind (pop h) (\<lambda>(h', r).
       case r of
         Inl _ \<Rightarrow> Panic TypeAssertionFailed
       | Inr x \<Rightarrow> go_bind (pop_n pop n h') (\<lambda>(h'', xs). Ok (h'', x # xs)))"

locale indexed_heap = strict_weak_order lt
  for lt :: "'a \<Rightarrow> 'a \<Rightarrow> bool" +
  fixes kf :: "'a \<Rightarrow> string"
    and inv :: "'h \<Rightarrow> bool"
    and lookup :: "'h \<Rightarrow> string \<Rightarrow> 'a option"
    and add :: "'h \<Rightarrow> 'a \<Rightarrow> ('h \<times> 'e option) go"
    and addIfNotPresent :: "'h \<Rightarrow> 'a \<Rightarrow> ('h \<times> 'e option) go"
    and delete :: "'h \<Rightarrow> 'a \<Rightarrow> ('h \<times> 'e option) go"
    and pop :: "'h \<Rightarrow> ('h \<times> ('e + 'a)) go"
    and peek :: "'h \<Rightarrow> 'a option go"
    and len :: "'h \<Rightarrow> nat"
  assumes keyed: "inv h \<Longrightarrow> lookup h k = Some x \<Longrightarrow> kf x = k"
    and finite_lookup: "inv h \<Longrightarrow> finite (dom (lookup h))"
    and len_card: "inv h \<Longrightarrow> len h = card (dom (lookup h))"
    and add_spec: "inv h \<Longrightarrow>
      \<exists>h'. add h x = Ok (h', None) \<and> inv h' \<and> lookup h' = (lookup h)(kf x \<mapsto> x)"
    and addIfNotPresent_spec: "inv h \<Longrightarrow>
      \<exists>h'. addIfNotPresent h x = Ok (h', None) \<and> inv h'
         \<and> lookup h' = (if lookup h (kf x) = None then (lookup h)(kf x \<mapsto> x) else lookup h)"
    and delete_spec: "inv h \<Longrightarrow> lookup h (kf x) = Some y \<Longrightarrow>
      \<exists>h'. delete h x = Ok (h', None) \<and> inv h' \<and> lookup h' = (lookup h)(kf x := None)"
    and delete_absent: "inv h \<Longrightarrow> lookup h (kf x) = None \<Longrightarrow> \<exists>e. delete h x = Ok (h, Some e)"
    and pop_spec: "inv h \<Longrightarrow> lookup h \<noteq> Map.empty \<Longrightarrow>
      \<exists>h' x. pop h = Ok (h', Inr x) \<and> peek h = Ok (Some x) \<and> inv h' \<and> lookup h (kf x) = Some x
         \<and> lookup h' = (lookup h)(kf x := None) \<and> (\<forall>k y. lookup h k = Some y \<longrightarrow> \<not> lt y x)"
    and pop_empty: "inv h \<Longrightarrow> lookup h = Map.empty \<Longrightarrow> panics (pop h)"
    and peek_empty: "inv h \<Longrightarrow> lookup h = Map.empty \<Longrightarrow> peek h = Ok None"
begin

lemma len_zero: "inv h \<Longrightarrow> len h = 0 \<longleftrightarrow> lookup h = Map.empty"
  using len_card finite_lookup by (simp add: card_eq_0_iff)

lemma pop_len:
  assumes "inv h" "lookup h (kf x) = Some x" "inv h'" "lookup h' = (lookup h)(kf x := None)"
  shows "Suc (len h') = len h"
proof -
  have "dom (lookup h') = dom (lookup h) - {kf x}" using assms(4) by auto
  moreover have "kf x \<in> dom (lookup h)" using assms(2) by auto
  ultimately show ?thesis
    using len_card assms(1,3) finite_lookup by (metis card_Suc_Diff1)
qed

text \<open>Popping \<open>n\<close> objects returns the \<open>n\<close> least ones, in order, and removes exactly them.\<close>

lemma pop_n_sorted:
  "inv h \<Longrightarrow> n \<le> len h \<Longrightarrow>
   \<exists>h' xs. pop_n pop n h = Ok (h', xs) \<and> inv h' \<and> length xs = n
     \<and> sorted_wrt (\<lambda>x y. \<not> lt y x) xs \<and> distinct (map kf xs)
     \<and> (\<forall>x \<in> set xs. lookup h (kf x) = Some x)
     \<and> lookup h' = lookup h |` (- kf ` set xs)
     \<and> (\<forall>x \<in> set xs. \<forall>k y. lookup h' k = Some y \<longrightarrow> \<not> lt y x)"
proof (induction n arbitrary: h)
  case 0
  then show ?case by auto
next
  case (Suc n)
  then have ne: "lookup h \<noteq> Map.empty" using len_zero [OF Suc.prems(1)] Suc.prems(2) by auto
  from pop_spec [OF Suc.prems(1) ne] obtain h1 x where
    h1: "pop h = Ok (h1, Inr x)" "inv h1" "lookup h (kf x) = Some x"
      "lookup h1 = (lookup h)(kf x := None)" "\<forall>k y. lookup h k = Some y \<longrightarrow> \<not> lt y x"
    by blast
  have "Suc (len h1) = len h" using pop_len [OF Suc.prems(1) h1(3,2,4)] .
  then have n: "n \<le> len h1" using Suc.prems(2) by simp
  from Suc.IH [OF h1(2) n] obtain h' xs where
    xs: "pop_n pop n h1 = Ok (h', xs)" "inv h'" "length xs = n" "sorted_wrt (\<lambda>x y. \<not> lt y x) xs"
      "distinct (map kf xs)" "\<forall>y \<in> set xs. lookup h1 (kf y) = Some y"
      "lookup h' = lookup h1 |` (- kf ` set xs)"
      "\<forall>x \<in> set xs. \<forall>k y. lookup h' k = Some y \<longrightarrow> \<not> lt y x"
    by blast
  have sub: "lookup h k = Some y" if "lookup h1 k = Some y" for k y
    using that h1(4) by (auto split: if_splits)
  have "kf x \<notin> kf ` set xs" using xs(6) h1(4) by force
  moreover have "lookup h' = lookup h |` (- kf ` set (x # xs))"
    using xs(7) h1(4) by (auto simp: fun_eq_iff restrict_map_def)
  moreover have "\<forall>y \<in> set xs. \<not> lt y x" using xs(6) sub h1(5) by blast
  moreover have "\<forall>k y. lookup h' k = Some y \<longrightarrow> \<not> lt y x"
    using xs(7) sub h1(5) by (metis restrict_map_def option.distinct(1))
  moreover have "\<forall>y \<in> set (x # xs). lookup h (kf y) = Some y" using xs(6) sub h1(3) by simp
  moreover have "pop_n pop (Suc n) h = Ok (h', x # xs)" using h1(1) xs(1) by simp
  ultimately show ?case using xs(2-5,8)
    by (intro exI [of _ h'] exI [of _ "x # xs"] conjI) simp_all
qed

end

section \<open>The model of heap.go provides the interface\<close>

lemma Heap_Add_spec:
  assumes "strict_weak_order lt" "heap_inv kf lt h"
  shows "\<exists>h'. Heap_Add h x = Ok (h', None) \<and> heap_inv kf lt h'
     \<and> Heap_GetByKey h' = (Heap_GetByKey h)(kf x \<mapsto> x)"
proof (cases "items h (kf x)")
  case None
  with heap_Push_inv [OF assms None] heap_invD(3) [OF assms(2)] show ?thesis
    by (auto simp: Heap_Add_def)
next
  case (Some item)
  with heap_Fix_inv [OF assms Some] heap_invD(3) [OF assms(2)] show ?thesis
    by (auto simp: Heap_Add_def)
qed

lemma Heap_AddIfNotPresent_spec:
  assumes "strict_weak_order lt" "heap_inv kf lt h"
  shows "\<exists>h'. Heap_AddIfNotPresent h x = Ok (h', None) \<and> heap_inv kf lt h'
     \<and> Heap_GetByKey h' = (if Heap_GetByKey h (kf x) = None then (Heap_GetByKey h)(kf x \<mapsto> x)
          else Heap_GetByKey h)"
proof (cases "items h (kf x)")
  case None
  then have "Heap_GetByKey h (kf x) = None" by (simp add: Heap_GetByKey_def)
  with None heap_Push_inv [OF assms None] heap_invD(3) [OF assms(2)] show ?thesis
    by (auto simp: Heap_AddIfNotPresent_def)
next
  case (Some item)
  then obtain y where "Heap_GetByKey h (kf x) = Some y" by (auto simp: Heap_GetByKey_def)
  with Some assms(2) heap_invD(3) [OF assms(2)] show ?thesis
    by (simp add: Heap_AddIfNotPresent_def)
qed

lemma Heap_Delete_spec:
  assumes "strict_weak_order lt" "heap_inv kf lt h" "Heap_GetByKey h (kf x) = Some y"
  shows "\<exists>h'. Heap_Delete h x = Ok (h', None) \<and> heap_inv kf lt h'
     \<and> Heap_GetByKey h' = (Heap_GetByKey h)(kf x := None)"
proof -
  note inv = heap_invD [OF assms(2)]
  from assms(3) obtain item where item: "items h (kf x) = Some item" by (auto simp: Heap_GetByKey_def)
  from index_ok_items [OF inv(1) item] heap_Remove_inv [OF assms(1,2), of "index item" "kf x"]
  show ?thesis using item inv(3) by (auto simp: Heap_Delete_def)
qed

lemma Heap_Delete_absent:
  assumes "heap_inv kf lt h" "Heap_GetByKey h (kf x) = None"
  shows "Heap_Delete h x = Ok (h, Some (Errorf ''object not found''))"
  using assms heap_invD(3) [OF assms(1)] by (auto simp: Heap_Delete_def Heap_GetByKey_def)

lemma queue_empty_iff: "heap_inv kf lt h \<Longrightarrow> queue h = [] \<longleftrightarrow> Heap_GetByKey h = Map.empty"
  using heap_invD(1) lookup_entries entries_def by (metis map_of_eq_empty_iff map_is_Nil_conv)

lemma Heap_Pop_spec:
  assumes "strict_weak_order lt" "heap_inv kf lt h" "Heap_GetByKey h \<noteq> Map.empty"
  shows "\<exists>h' x. Heap_Pop h = Ok (h', Inr x) \<and> Heap_Peek h = Ok (Some x) \<and> heap_inv kf lt h'
     \<and> Heap_GetByKey h (kf x) = Some x \<and> Heap_GetByKey h' = (Heap_GetByKey h)(kf x := None)
     \<and> (\<forall>k y. Heap_GetByKey h k = Some y \<longrightarrow> \<not> lt y x)"
proof -
  note inv = heap_invD [OF assms(2)]
  have ne: "0 < length (queue h)" using assms(3) queue_empty_iff [OF assms(2)] by blast
  obtain k x where kx: "entries h ! 0 = (k, x)" by fastforce
  have mem: "(k, x) \<in> set (entries h)" using kx ne by (metis nth_mem length_entries)
  then have look: "Heap_GetByKey h (kf x) = Some x" "kf x = k"
    using inv(5) lookup_entries [OF inv(1)] index_ok_distinct [OF inv(1)] by auto
  have "Heap_Peek h = Ok (Some x)"
    using index_ok_nth [OF inv(1) ne] ne kx
    by (cases "queue h") (auto simp: Heap_Peek_def data_Peek_def)
  moreover have "\<not> lt y x" if "Heap_GetByKey h k' = Some y" for k' y
  proof -
    have "(k', y) \<in> set (entries h)" using that lookup_entries [OF inv(1)] by (simp add: map_of_SomeD)
    then obtain i where "i < length (queue h)" "entries h ! i = (k', y)" by (auto simp: in_set_conv_nth)
    then show ?thesis
      using strict_weak_order.heap_root_min [OF pullback_strict_weak_order [OF assms(1), of snd]]
        inv(4) kx by (fastforce simp: entry_lt_def [abs_def])
  qed
  moreover obtain h' where "heap_Pop h = Ok (h', Some x)" "heap_inv kf lt h'"
    "Heap_GetByKey h' = (Heap_GetByKey h)(k := None)"
    using heap_Remove_inv [OF assms(1,2) ne kx] heap_Pop_eq_Remove [OF inv(1)] by auto
  ultimately show ?thesis using look by (auto simp: Heap_Pop_def)
qed

lemma Heap_empty:
  assumes "heap_inv kf lt h" "Heap_GetByKey h = Map.empty"
  shows "Heap_Pop h = Panic IndexOutOfRange" "Heap_Peek h = Ok None"
  using queue_empty_iff [OF assms(1)] assms(2)
  by (simp_all add: Heap_Pop_def heap_Pop_def data_Len_def Heap_Peek_def data_Peek_def)

lemma Heap_Len_card:
  assumes "heap_inv kf lt h"
  shows "finite (dom (Heap_GetByKey h))" "Heap_Len h = card (dom (Heap_GetByKey h))"
proof -
  note inv = heap_invD [OF assms]
  have "dom (Heap_GetByKey h) = set (queue h)"
    using lookup_entries [OF inv(1)] by (simp add: dom_map_of_conv_image_fst flip: set_map)
  then show "finite (dom (Heap_GetByKey h))" "Heap_Len h = card (dom (Heap_GetByKey h))"
    using distinct_card [OF index_ok_distinct [OF inv(1)]] by (simp_all add: Heap_Len_def)
qed

locale keyed_order = strict_weak_order lt
  for lt :: "'a \<Rightarrow> 'a \<Rightarrow> bool" +
  fixes kf :: "'a \<Rightarrow> string"

text \<open>The model of heap.go meets the contract for every key function and every strict weak order.\<close>

lemma indexed_heap_Heap:
  assumes swo: "strict_weak_order lt"
  shows "indexed_heap lt kf (heap_inv kf lt) Heap_GetByKey
    Heap_Add Heap_AddIfNotPresent Heap_Delete Heap_Pop Heap_Peek Heap_Len"
proof (intro indexed_heap.intro swo indexed_heap_axioms.intro)
  fix h :: "'a data" and x y k
  assume inv: "heap_inv kf lt h"
  show "Heap_GetByKey h k = Some x \<Longrightarrow> kf x = k" using heap_inv_keyed [OF inv] by simp
  show "finite (dom (Heap_GetByKey h))" "Heap_Len h = card (dom (Heap_GetByKey h))"
    using Heap_Len_card [OF inv] by simp_all
  show "\<exists>h'. Heap_Add h x = Ok (h', None) \<and> heap_inv kf lt h'
     \<and> Heap_GetByKey h' = (Heap_GetByKey h)(kf x \<mapsto> x)"
    by (rule Heap_Add_spec [OF swo inv])
  show "\<exists>h'. Heap_AddIfNotPresent h x = Ok (h', None) \<and> heap_inv kf lt h'
     \<and> Heap_GetByKey h' = (if Heap_GetByKey h (kf x) = None then (Heap_GetByKey h)(kf x \<mapsto> x)
          else Heap_GetByKey h)"
    by (rule Heap_AddIfNotPresent_spec [OF swo inv])
  show "Heap_GetByKey h (kf x) = Some y \<Longrightarrow> \<exists>h'. Heap_Delete h x = Ok (h', None) \<and> heap_inv kf lt h'
     \<and> Heap_GetByKey h' = (Heap_GetByKey h)(kf x := None)"
    by (rule Heap_Delete_spec [OF swo inv])
  show "Heap_GetByKey h (kf x) = None \<Longrightarrow> \<exists>e. Heap_Delete h x = Ok (h, Some e)"
    using Heap_Delete_absent [OF inv] by blast
  show "Heap_GetByKey h \<noteq> Map.empty \<Longrightarrow> \<exists>h' x. Heap_Pop h = Ok (h', Inr x) \<and> Heap_Peek h = Ok (Some x)
     \<and> heap_inv kf lt h' \<and> Heap_GetByKey h (kf x) = Some x
     \<and> Heap_GetByKey h' = (Heap_GetByKey h)(kf x := None)
     \<and> (\<forall>k y. Heap_GetByKey h k = Some y \<longrightarrow> \<not> lt y x)"
    by (rule Heap_Pop_spec [OF swo inv])
  show "Heap_GetByKey h = Map.empty \<Longrightarrow> panics (Heap_Pop h)"
    "Heap_GetByKey h = Map.empty \<Longrightarrow> Heap_Peek h = Ok None"
    using Heap_empty [OF inv] by simp_all
qed

sublocale keyed_order \<subseteq> heap: indexed_heap lt kf "heap_inv kf lt" Heap_GetByKey
  Heap_Add Heap_AddIfNotPresent Heap_Delete Heap_Pop Heap_Peek Heap_Len
  by (rule indexed_heap_Heap) unfold_locales

end
