(* ===== verification/Heap_Props.thy ===== *)
theory Heap_Props
  imports Heap_Contract
begin

text \<open>
  The properties of \<^verbatim>\<open>pkg/queue/heap\<close> as its users see it: sequences of calls from a new heap
  never panic, keep the key index and the queue in agreement and implement a finite map whose
  \<open>Pop\<close> takes a least object (a simulation of the step relation \<open>map_step\<close>); popping returns
  the objects in order; the error results.
\<close>

section \<open>Sequences of calls\<close>

datatype 'a heap_op = OpAdd 'a | OpAddIfNotPresent 'a | OpUpdate 'a | OpDelete 'a | OpPop

text \<open>A client pops only from a heap that is not empty; errors are dropped with the result.\<close>

primrec heap_step :: "'a Heap \<Rightarrow> 'a heap_op \<Rightarrow> 'a Heap go" where
  "heap_step h (OpAdd x) = go_bind (Heap_Add h x) (\<lambda>(h', _). Ok h')"
| "heap_step h (OpAddIfNotPresent x) = go_bind (Heap_AddIfNotPresent h x) (\<lambda>(h', _). Ok h')"
| "heap_step h (OpUpdate x) = go_bind (Heap_Update h x) (\<lambda>(h', _). Ok h')"
| "heap_step h (OpDelete x) = go_bind (Heap_Delete h x) (\<lambda>(h', _). Ok h')"
| "heap_step h OpPop =
     (if Heap_Len h = 0 then Ok h else go_bind (Heap_Pop h) (\<lambda>(h', _). Ok h'))"

fun heap_run :: "'a Heap \<Rightarrow> 'a heap_op list \<Rightarrow> 'a Heap go" where
  "heap_run h [] = Ok h"
| "heap_run h (p # ps) = go_bind (heap_step h p) (\<lambda>h'. heap_run h' ps)"

text \<open>The specification: a map from keys to objects.\<close>

inductive map_step ::
  "('a \<Rightarrow> string) \<Rightarrow> ('a \<Rightarrow> 'a \<Rightarrow> bool) \<Rightarrow> (string \<rightharpoonup> 'a) \<Rightarrow> 'a heap_op \<Rightarrow> (string \<rightharpoonup> 'a) \<Rightarrow> bool"
  for kf lt where
  ms_add: "map_step kf lt m (OpAdd x) (m(kf x \<mapsto> x))"
| ms_update: "map_step kf lt m (OpUpdate x) (m(kf x \<mapsto> x))"
| ms_fresh: "m (kf x) = None \<Longrightarrow> map_step kf lt m (OpAddIfNotPresent x) (m(kf x \<mapsto> x))"
| ms_present: "m (kf x) \<noteq> None \<Longrightarrow> map_step kf lt m (OpAddIfNotPresent x) m"
| ms_delete: "map_step kf lt m (OpDelete x) (m(kf x := None))"
| ms_pop: "m (kf x) = Some x \<Longrightarrow> (\<And>k y. m k = Some y \<Longrightarrow> \<not> lt y x) \<Longrightarrow>
    map_step kf lt m OpPop (m(kf x := None))"
| ms_pop_empty: "map_step kf lt Map.empty OpPop Map.empty"

inductive map_run ::
  "('a \<Rightarrow> string) \<Rightarrow> ('a \<Rightarrow> 'a \<Rightarrow> bool) \<Rightarrow> (string \<rightharpoonup> 'a) \<Rightarrow> 'a heap_op list \<Rightarrow> (string \<rightharpoonup> 'a) \<Rightarrow> bool"
  for kf lt where
  mr_nil: "map_run kf lt m [] m"
| mr_cons: "map_step kf lt m p m' \<Longrightarrow> map_run kf lt m' ps m'' \<Longrightarrow> map_run kf lt m (p # ps) m''"

inductive_cases map_step_popE: "map_step kf lt m OpPop m'"
inductive_simps map_run_Nil [simp]: "map_run kf lt m [] m'"
inductive_simps map_run_Cons: "map_run kf lt m (p # ps) m''"

lemma heap_step_simulates:
  assumes "strict_weak_order lt" "heap_inv kf lt h"
  shows "\<exists>h'. heap_step h p = Ok h' \<and> heap_inv kf lt h'
    \<and> map_step kf lt (Heap_GetByKey h) p (Heap_GetByKey h')"
proof (cases p)
  case (OpAdd x)
  then show ?thesis using Heap_Add_spec [OF assms, of x] by (auto intro: ms_add)
next
  case (OpUpdate x)
  then show ?thesis using Heap_Add_spec [OF assms, of x] by (auto simp: Heap_Update_def intro: ms_update)
next
  case (OpAddIfNotPresent x)
  then show ?thesis using Heap_AddIfNotPresent_spec [OF assms, of x]
    using ms_fresh [of "Heap_GetByKey h" kf x lt] ms_present [of "Heap_GetByKey h" kf x lt]
    by (auto split: if_splits)
next
  case (OpDelete x)
  show ?thesis
  proof (cases "Heap_GetByKey h (kf x)")
    case None
    then have "map_step kf lt (Heap_GetByKey h) p (Heap_GetByKey h)"
      using OpDelete ms_delete [of kf lt "Heap_GetByKey h" x] by (simp add: fun_upd_idem)
    with None OpDelete assms(2) Heap_Delete_absent [OF assms(2) None] show ?thesis by simp
  next
    case (Some y)
    with OpDelete Heap_Delete_spec [OF assms Some] show ?thesis by (auto intro: ms_delete)
  qed
next
  case OpPop
  show ?thesis
  proof (cases "Heap_GetByKey h = Map.empty")
    case True
    then have "Heap_Len h = 0" using Heap_Len_card [OF assms(2)] by simp
    with True OpPop assms(2) show ?thesis by (auto intro: ms_pop_empty)
  next
    case False
    then have "Heap_Len h \<noteq> 0" using Heap_Len_card [OF assms(2)] by (simp add: card_eq_0_iff)
    with OpPop Heap_Pop_spec [OF assms False] show ?thesis by (auto intro!: ms_pop)
  qed
qed

lemma heap_run_simulates:
  assumes "strict_weak_order lt"
  shows "heap_inv kf lt h \<Longrightarrow> \<exists>h'. heap_run h ps = Ok h' \<and> heap_inv kf lt h'
    \<and> map_run kf lt (Heap_GetByKey h) ps (Heap_GetByKey h')"
proof (induction ps arbitrary: h)
  case (Cons p ps)
  from heap_step_simulates [OF assms Cons.prems, of p] obtain h1 where
    h1: "heap_step h p = Ok h1" "heap_inv kf lt h1" "map_step kf lt (Heap_GetByKey h) p (Heap_GetByKey h1)"
    by blast
  from Cons.IH [OF h1(2)] h1 show ?case by (auto simp: map_run_Cons)
qed simp

section \<open>Properties\<close>

definition compareInts :: "string \<times> int \<Rightarrow> string \<times> int \<Rightarrow> bool" where
  "compareInts x y \<longleftrightarrow> snd x < snd y"

lemma compareInts_order: "strict_weak_order compareInts"
  using key_strict_weak_order [of snd] by (simp add: compareInts_def [abs_def])

definition test_heap :: "(string \<times> int) Heap" where
  "test_heap = Heap_New (\<lambda>x. Inr (fst x)) (\<lambda>x y. Ok (compareInts x y))"

text \<open>The heap after two calls of \<open>Add\<close>, written out.\<close>

definition two_heap :: "(string \<times> int) Heap" where
  "two_heap = test_heap\<lparr>items := [''foo'' \<mapsto> \<lparr>obj = (''foo'', 10), index = 1\<rparr>,
       ''bar'' \<mapsto> \<lparr>obj = (''bar'', 1), index = 0\<rparr>], queue := [''bar'', ''foo'']\<rparr>"

lemma two_heap_run: "heap_run test_heap [OpAdd (''foo'', 10), OpAdd (''bar'', 1)] = Ok two_heap"
  by (simp add: two_heap_def test_heap_def Heap_New_def NewWithRecorder_def Heap_Add_def heap_Push_def
      data_defs heap_up.simps [of _ "Suc 0"] compareInts_def slice_get_def fun_upd_twist)

lemma two_heap_inv: "heap_inv fst compareInts two_heap"
  using heap_run_simulates [OF compareInts_order conjunct1 [OF Heap_New_inv], of fst
      "[OpAdd (''foo'', 10), OpAdd (''bar'', 1)]"] two_heap_run
  by (auto simp: test_heap_def)

lemma two_heap_lookup: "Heap_GetByKey two_heap = [''foo'' \<mapsto> (''foo'', 10), ''bar'' \<mapsto> (''bar'', 1)]"
  by (auto simp: two_heap_def Heap_GetByKey_def)

text \<open>C4. Refinement: from a new heap with a total key function and a strict weak order, every sequence
  of \<open>Add\<close>, \<open>AddIfNotPresent\<close>, \<open>Update\<close>, \<open>Delete\<close> and guarded \<open>Pop\<close> calls ends without a panic,
  in a well-formed heap, and what \<open>GetByKey\<close> returns follows the map specification.\<close>

theorem heap_refines_map:
  assumes "strict_weak_order lt"
  shows "\<exists>h. heap_run (Heap_New (\<lambda>x. Inr (kf x)) (\<lambda>x y. Ok (lt x y))) ps = Ok h
    \<and> heap_inv kf lt h \<and> map_run kf lt Map.empty ps (Heap_GetByKey h)"
  using heap_run_simulates [OF assms conjunct1 [OF Heap_New_inv], of kf ps] Heap_New_inv [of kf lt]
  by auto

theorem heap_refines_map_witness:
  "\<exists>h. heap_run test_heap [OpAdd (''foo'', 10), OpAdd (''bar'', 1), OpDelete (''foo'', 0), OpPop] = Ok h
    \<and> heap_inv fst compareInts h
    \<and> map_run fst compareInts Map.empty
        [OpAdd (''foo'', 10), OpAdd (''bar'', 1), OpDelete (''foo'', 0), OpPop] (Heap_GetByKey h)"
  using heap_refines_map [OF compareInts_order, of fst
      "[OpAdd (''foo'', 10), OpAdd (''bar'', 1), OpDelete (''foo'', 0), OpPop]"]
  by (simp add: test_heap_def)

text \<open>C26. The property the type \<open>data\<close> depends on: after any such sequence the keys of the map are the
  elements of the queue, none twice, and each item stores the position of its key in the queue.\<close>

theorem heap_index_consistent:
  assumes "strict_weak_order lt"
    and "heap_run (Heap_New (\<lambda>x. Inr (kf x)) (\<lambda>x y. Ok (lt x y))) ps = Ok h"
  shows "dom (items h) = set (queue h) \<and> distinct (queue h)
    \<and> (\<forall>i < length (queue h). \<exists>x. items h (queue h ! i) = Some \<lparr>obj = x, index = i\<rparr>)"
proof -
  from heap_run_simulates [OF assms(1) conjunct1 [OF Heap_New_inv], of kf ps] assms(2)
  have ok: "index_ok h" by (auto dest: heap_invD(1))
  then have "set (queue h) \<subseteq> dom (items h)" by (fastforce simp: index_ok_def in_set_conv_nth)
  with ok index_ok_distinct [OF ok] show ?thesis by (auto simp: index_ok_def)
qed

theorem heap_index_consistent_witness:
  "dom (items two_heap) = set (queue two_heap) \<and> distinct (queue two_heap)"
  using heap_index_consistent [OF compareInts_order, of fst
      "[OpAdd (''foo'', 10), OpAdd (''bar'', 1)]" two_heap] two_heap_run
  by (simp add: test_heap_def)

text \<open>C25. Popping a well-formed heap \<open>n\<close> times, \<open>n\<close> at most its length, returns \<open>n\<close> different objects of
  the heap in order, leaves exactly the others, and none of those goes before a returned one.\<close>

theorem heap_pops_in_order:
  assumes "strict_weak_order lt" "heap_inv kf lt h" "n \<le> Heap_Len h"
  shows "\<exists>h' xs. pop_n Heap_Pop n h = Ok (h', xs) \<and> heap_inv kf lt h' \<and> length xs = n
    \<and> sorted_wrt (\<lambda>x y. \<not> lt y x) xs \<and> distinct (map kf xs)
    \<and> (\<forall>x \<in> set xs. Heap_GetByKey h (kf x) = Some x)
    \<and> Heap_GetByKey h' = Heap_GetByKey h |` (- kf ` set xs)
    \<and> (\<forall>x \<in> set xs. \<forall>k y. Heap_GetByKey h' k = Some y \<longrightarrow> \<not> lt y x)"
  by (rule indexed_heap.pop_n_sorted [OF indexed_heap_Heap [OF assms(1)] assms(2,3)])

theorem heap_pops_in_order_witness:
  "\<exists>h' xs. pop_n Heap_Pop 2 two_heap = Ok (h', xs) \<and> length xs = 2
     \<and> sorted_wrt (\<lambda>x y. \<not> compareInts y x) xs \<and> distinct (map fst xs)"
  using heap_pops_in_order [OF compareInts_order two_heap_inv, of 2]
  by (auto simp: Heap_Len_def two_heap_def)

text \<open>The error results of a well-formed heap: deleting an object whose key is absent returns an error
  and changes nothing, \<open>Peek\<close> of an empty heap returns nil, and \<open>Pop\<close> of an empty heap does
  not return the error its signature offers: \<open>Swap(0, -1)\<close> panics.\<close>

theorem heap_absent_and_empty:
  assumes "strict_weak_order lt" "heap_inv kf lt h"
  shows "(Heap_Delete h x = Ok (h, Some (Errorf ''object not found'')) \<longleftrightarrow> Heap_GetByKey h (kf x) = None)
    \<and> (Heap_Peek h = Ok None \<longleftrightarrow> Heap_GetByKey h = Map.empty)
    \<and> (Heap_Pop h = Panic IndexOutOfRange \<longleftrightarrow> Heap_GetByKey h = Map.empty)"
proof (intro conjI)
  show "Heap_Delete h x = Ok (h, Some (Errorf ''object not found'')) \<longleftrightarrow> Heap_GetByKey h (kf x) = None"
    using Heap_Delete_absent [OF assms(2)] Heap_Delete_spec [OF assms, of x]
    by (cases "Heap_GetByKey h (kf x)") fastforce+
  show "Heap_Peek h = Ok None \<longleftrightarrow> Heap_GetByKey h = Map.empty"
    "Heap_Pop h = Panic IndexOutOfRange \<longleftrightarrow> Heap_GetByKey h = Map.empty"
    using Heap_empty [OF assms(2)] Heap_Pop_spec [OF assms] by (cases "Heap_GetByKey h = Map.empty"; auto)+
qed

theorem heap_absent_and_empty_witness:
  "Heap_Delete two_heap (''baz'', 3) = Ok (two_heap, Some (Errorf ''object not found''))
    \<and> Heap_Pop two_heap \<noteq> Panic IndexOutOfRange"
  using heap_absent_and_empty [OF compareInts_order two_heap_inv, of "(''baz'', 3)"]
  by (simp add: two_heap_lookup)

end
