(* ===== verification/Framework_Types.thy ===== *)
theory Framework_Types
  imports Prelude Complex_Main
begin

text \<open>
  The data the components exchange: the custom resources \<open>QueueUnit\<close> and \<open>Queue\<close> with the
  fields their documentation gives (\<^verbatim>\<open>doc/queueunit.md\<close>, \<^verbatim>\<open>doc/queue.md\<close>), the
  wrappers of \<^verbatim>\<open>pkg/framework/type.go\<close>, and the status values and plugin interfaces of
  \<^verbatim>\<open>pkg/framework/interface.go\<close>. Resource quantities belong to Kubernetes' apimachinery:
  their type is a type variable \<open>'q\<close>, their operations a record of functions that the operations
  using them take as an argument, and what the code relies on is \<open>quantity_laws\<close>.
\<close>

section \<open>Custom resources\<close>

text \<open>A point in time in nanoseconds; a duration is a signed 64-bit number of nanoseconds.\<close>

type_synonym time = int
type_synonym duration = int64

type_synonym 'q ResourceList = "string \<rightharpoonup> 'q"
type_synonym QueueUnitPhase = string

definition Enqueued :: QueueUnitPhase where "Enqueued = ''Enqueued''"
definition Dequeued :: QueueUnitPhase where "Dequeued = ''Dequeued''"

record ObjectReference =
  ref_APIVersion :: string
  ref_Kind :: string
  ref_Name :: string
  ref_Namespace :: string

record 'q QueueUnitSpec =
  ConsumerRef :: "ObjectReference option"
  Priority :: "int32 option"
  SubmissionQueue :: string
  Resource :: "'q ResourceList"
  PriorityClassName :: string

record QueueUnitStatus =
  Phase :: QueueUnitPhase
  Message :: string

record 'q QueueUnit =
  qu_Namespace :: string
  qu_Name :: string
  qu_Spec :: "'q QueueUnitSpec"
  qu_Status :: QueueUnitStatus

record Queue =
  q_Namespace :: string
  q_Name :: string
  QueuePolicy :: string
  q_Priority :: "int32 option"
  q_PriorityClassName :: string

text \<open>The field \<^verbatim>\<open>ConsumerRef.Namespace\<close> of a unit: a nil reference panics.\<close>

definition consumer_namespace :: "'q QueueUnit \<Rightarrow> string go" where
  "consumer_namespace u =
     (case ConsumerRef (qu_Spec u) of
        None \<Rightarrow> Panic NilDereference
      | Some ref \<Rightarrow> Ok (ref_Namespace ref))"

text \<open>The key of a unit: \<^verbatim>\<open>namespace + "/" + name\<close>, also written with \<^verbatim>\<open>Sprintf\<close>.\<close>

definition unit_key :: "'q QueueUnit \<Rightarrow> string" where
  "unit_key u = qu_Namespace u @ ''/'' @ qu_Name u"

lemma unit_key_fold: "qu_Namespace u @ CHR ''/'' # qu_Name u = unit_key u"
  by (simp add: unit_key_def)

section \<open>Wrappers: framework/type.go\<close>

record QueueInfo =
  qi_Name :: string
  qi_Queue :: Queue

record 'q QueueUnitInfo =
  info_Name :: string
  Unit :: "'q QueueUnit"
  Timestamp :: time
  Attempts :: int64
  InitialAttemptTimestamp :: time

text \<open>\<open>now1\<close> and \<open>now2\<close> are the two readings of the clock, in the order of the composite literal.\<close>

definition NewQueueUnitInfo :: "time \<Rightarrow> time \<Rightarrow> 'q QueueUnit \<Rightarrow> 'q QueueUnitInfo" where
  "NewQueueUnitInfo now1 now2 u =
     \<lparr>info_Name = unit_key u, Unit = u, Timestamp = now1, Attempts = 0,
      InitialAttemptTimestamp = now2\<rparr>"

definition NewQueueInfo :: "Queue \<Rightarrow> QueueInfo" where
  "NewQueueInfo q = \<lparr>qi_Name = q_Namespace q, qi_Queue = q\<rparr>"

section \<open>Status values: framework/interface.go\<close>

datatype Code = Success | Error | Unschedulable | UnschedulableAndUnresolvable | Wait | Skip

record Status =
  st_message :: string
  st_code :: Code

text \<open>A \<^verbatim>\<open>*Status\<close> may be nil; its methods dereference it.\<close>

definition NewStatus :: "Code \<Rightarrow> string \<Rightarrow> Status option" where
  "NewStatus c m = Some \<lparr>st_message = m, st_code = c\<rparr>"

definition Status_Code :: "Status option \<Rightarrow> Code go" where
  "Status_Code s = (case s of None \<Rightarrow> Panic NilDereference | Some s \<Rightarrow> Ok (st_code s))"

definition Status_Message :: "Status option \<Rightarrow> string go" where
  "Status_Message s = (case s of None \<Rightarrow> Panic NilDereference | Some s \<Rightarrow> Ok (st_message s))"

lemma Status_Code_NewStatus [simp]: "Status_Code (NewStatus c m) = Ok c"
  by (simp add: Status_Code_def NewStatus_def)

lemma Status_Message_NewStatus [simp]: "Status_Message (NewStatus c m) = Ok m"
  by (simp add: Status_Message_def NewStatus_def)

section \<open>Plugins\<close>

text \<open>
  A plugin is an object of which the framework only uses the interfaces it implements: a type
  assertion \<^verbatim>\<open>p.(framework.FilterPlugin)\<close> succeeds where the component is \<open>Some\<close>. Plugins keep
  state of their own, of type \<open>'s\<close>, which their methods read and replace.
\<close>

type_synonym 'q QueueLessFunc = "'q QueueUnitInfo \<Rightarrow> 'q QueueUnitInfo \<Rightarrow> bool"
type_synonym MultiQueueLessFunc = "QueueInfo \<Rightarrow> QueueInfo \<Rightarrow> bool"
type_synonym ('q, 's) FilterFunc = "'s \<Rightarrow> 'q QueueUnitInfo \<Rightarrow> ('s \<times> Status option) go"
type_synonym ('q, 's) UnreserveFunc = "'s \<Rightarrow> 'q QueueUnitInfo \<Rightarrow> 's go"

record ('q, 's) Plugin =
  plugin_Name :: string
  MultiQueueSortPlugin :: "MultiQueueLessFunc option"
  QueueSortPlugin :: "'q QueueLessFunc option"
  FilterPlugin :: "('q, 's) FilterFunc option"
  ReservePlugin :: "(('q, 's) FilterFunc \<times> ('q, 's) UnreserveFunc) option"

text \<open>The interface \<^verbatim>\<open>Handle\<close>: what a plugin's factory gets from the framework.\<close>

record ('i, 'c) Handle =
  KubeConfigPath :: string
  SharedInformerFactory :: 'i
  QueueUnitClient :: 'c

section \<open>Quantities\<close>

text \<open>
  The operations on \<^verbatim>\<open>resource.Quantity\<close> the repository calls: \<open>Add\<close> and \<open>Sub\<close> (in place,
  here with the new value as result), \<open>Cmp\<close>, \<open>Sign\<close>, \<open>Value\<close>, and the zero made by
  \<^verbatim>\<open>NewQuantity(0, BinarySI)\<close>.
\<close>

record 'q quantity_ops =
  q_Add :: "'q \<Rightarrow> 'q \<Rightarrow> 'q"
  q_Sub :: "'q \<Rightarrow> 'q \<Rightarrow> 'q"
  q_Cmp :: "'q \<Rightarrow> 'q \<Rightarrow> int"
  q_Sign :: "'q \<Rightarrow> int"
  q_Value :: "'q \<Rightarrow> int"
  q_Zero :: 'q

text \<open>
  Documented behaviour: a quantity is a fixed-point number \<open>amount x\<close>; sums, differences and
  comparisons are those of the numbers.
\<close>

definition quantity_laws :: "'q quantity_ops \<Rightarrow> ('q \<Rightarrow> rat) \<Rightarrow> bool" where
  "quantity_laws Q amount \<longleftrightarrow>
     (\<forall>x y. amount (q_Add Q x y) = amount x + amount y) \<and>
     (\<forall>x y. amount (q_Sub Q x y) = amount x - amount y) \<and>
     (\<forall>x y. q_Cmp Q x y < 0 \<longleftrightarrow> amount x < amount y) \<and>
     (\<forall>x. q_Sign Q x \<le> 0 \<longleftrightarrow> amount x \<le> 0) \<and>
     amount (q_Zero Q) = 0"

text \<open>Whole numbers of units satisfy the laws: the concrete quantities of the examples.\<close>

definition int_quantity :: "int quantity_ops" where
  "int_quantity =
     \<lparr>q_Add = (+), q_Sub = (-), q_Cmp = (\<lambda>x y. sgn (x - y)), q_Sign = sgn, q_Value = id, q_Zero = 0\<rparr>"

lemma int_quantity_laws: "quantity_laws int_quantity of_int"
  by (auto simp: quantity_laws_def int_quantity_def sgn_if)

section \<open>Concrete values for the examples\<close>

definition sample_unit :: "string \<Rightarrow> string \<Rightarrow> string \<Rightarrow> int32 option \<Rightarrow> 'q ResourceList \<Rightarrow> 'q QueueUnit" where
  "sample_unit ns n consumer prio res =
     \<lparr>qu_Namespace = ns, qu_Name = n,
      qu_Spec = \<lparr>ConsumerRef = Some \<lparr>ref_APIVersion = ''kubeflow.org/v1'', ref_Kind = ''TFJob'',
                   ref_Name = n, ref_Namespace = consumer\<rparr>,
                 Priority = prio, SubmissionQueue = [], Resource = res, PriorityClassName = []\<rparr>,
      qu_Status = \<lparr>Phase = Enqueued, Message = []\<rparr>\<rparr>"

definition sample_queue :: "string \<Rightarrow> string \<Rightarrow> int32 option \<Rightarrow> Queue" where
  "sample_queue ns policy prio =
     \<lparr>q_Namespace = ns, q_Name = ns, QueuePolicy = policy, q_Priority = prio, q_PriorityClassName = []\<rparr>"

definition cpu_list :: "int \<Rightarrow> int ResourceList" where
  "cpu_list n = [''cpu'' \<mapsto> n]"

definition cpu_order :: "'q ResourceList \<Rightarrow> string list" where
  "cpu_order m = [''cpu'']"

lemmas sample_defs = sample_unit_def sample_queue_def cpu_list_def cpu_order_def int_quantity_def
  NewQueueUnitInfo_def unit_key_def

end
