(* ===== verification/Priority_Plugin.thy ===== *)
theory Priority_Plugin
  imports Framework_Types
begin

text \<open>
  The model of \<^verbatim>\<open>pkg/framework/plugins/priority/priority.go\<close>: the two comparison functions,
  priorities being signed 32-bit integers with nil read as 0, and the constructor. Both
  comparisons are strict weak orders, which is what the heap and the sorting of queues need.
\<close>

definition Priority_Name :: string where
  "Priority_Name = ''Priority''"

definition MultiQueueLess :: "QueueInfo \<Rightarrow> QueueInfo \<Rightarrow> bool" where
  "MultiQueueLess q1 q2 =
     (let p1 = (case q_Priority (qi_Queue q1) of None \<Rightarrow> 0 | Some p \<Rightarrow> p);
          p2 = (case q_Priority (qi_Queue q2) of None \<Rightarrow> 0 | Some p \<Rightarrow> p)
      in sint p2 < sint p1)"

definition QueueLess :: "'q QueueUnitInfo \<Rightarrow> 'q QueueUnitInfo \<Rightarrow> bool" where
  "QueueLess u1 u2 =
     (let p1 = (case Priority (qu_Spec (Unit u1)) of None \<Rightarrow> 0 | Some p \<Rightarrow> p);
          p2 = (case Priority (qu_Spec (Unit u2)) of None \<Rightarrow> 0 | Some p \<Rightarrow> p)
      in sint p2 < sint p1 \<or> p1 = p2 \<and> InitialAttemptTimestamp u1 < InitialAttemptTimestamp u2)"

text \<open>The factory never fails and keeps no state.\<close>

definition Priority_New :: "'hd \<Rightarrow> 's \<Rightarrow> string + ('q, 's) Plugin \<times> 's" where
  "Priority_New handle s =
     Inr (\<lparr>plugin_Name = Priority_Name, MultiQueueSortPlugin = Some MultiQueueLess,
           QueueSortPlugin = Some QueueLess, FilterPlugin = None, ReservePlugin = None\<rparr>, s)"

section \<open>The comparisons are strict weak orders\<close>

definition queue_priority :: "QueueInfo \<Rightarrow> int" where
  "queue_priority q = (case q_Priority (qi_Queue q) of None \<Rightarrow> 0 | Some p \<Rightarrow> sint p)"

definition unit_priority :: "'q QueueUnitInfo \<Rightarrow> int" where
  "unit_priority u = (case Priority (qu_Spec (Unit u)) of None \<Rightarrow> 0 | Some p \<Rightarrow> sint p)"

lemma MultiQueueLess_iff: "MultiQueueLess q1 q2 \<longleftrightarrow> queue_priority q2 < queue_priority q1"
  by (simp add: MultiQueueLess_def queue_priority_def Let_def split: option.splits)

lemma sint_eq_0_iff: "sint (p :: int32) = 0 \<longleftrightarrow> p = 0"
  by (metis signed_0 signed_word_eqI)

lemma QueueLess_iff:
  "QueueLess u1 u2 \<longleftrightarrow>
     unit_priority u2 < unit_priority u1 \<or>
     unit_priority u1 = unit_priority u2 \<and> InitialAttemptTimestamp u1 < InitialAttemptTimestamp u2"
  by (auto simp: QueueLess_def unit_priority_def Let_def sint_eq_0_iff signed_word_eqI
      split: option.splits dest: sym [of 0])

interpretation queue_order: strict_weak_order MultiQueueLess
  by unfold_locales (auto simp: MultiQueueLess_iff)

interpretation unit_order: strict_weak_order QueueLess
  by unfold_locales (auto simp: QueueLess_iff)

end
