(* ===== verification/Resource_Quota.thy ===== *)
theory Resource_Quota
  imports Framework_Types
begin

text \<open>
  The model of \<^verbatim>\<open>pkg/framework/plugins/resourcequota/resource_quota.go\<close>: the plugin's
  state (resources reserved per namespace, keys of the units that hold a reservation, the lister
  of quota objects), \<open>Reserve\<close>, \<open>Unreserve\<close> and \<open>Filter\<close>. The operations that range over a
  resource list take the order of the iteration as an argument (\<open>ord\<close>, a function from the map
  to the list of its keys). The main results: the reserved amounts are the sum of the requests of
  the units on record (\<open>ledger_ok\<close>), \<open>Unreserve\<close> undoes \<open>Reserve\<close>, and a unit that passes
  \<open>Filter\<close> is within the quota once reserved.
\<close>

section \<open>Messages\<close>

definition ErrNoResourceQuota :: "int \<Rightarrow> string \<Rightarrow> string" where
  "ErrNoResourceQuota n ns =
     ''found '' @ itoa n @ '' resources quota in ns: '' @ ns @ '', expecting more than 0''"

definition ErrNoProperResourceQuotaFound :: "string \<Rightarrow> string" where
  "ErrNoProperResourceQuotaFound ns = ''cannot find proper resource quota in namespace '' @ ns"

definition ErrResourceQuotaStatusHardNil :: "string \<Rightarrow> string" where
  "ErrResourceQuotaStatusHardNil n =
     ''cannot find hard limit in the status of resource quota '' @ n"

definition ErrResourceQuotaInsufficient :: "string \<Rightarrow> string \<Rightarrow> int \<Rightarrow> int \<Rightarrow> int \<Rightarrow> string" where
  "ErrResourceQuotaInsufficient r n res hard req =
     ''insufficient resource left for '' @ r @ '' in resource quota '' @ n @ '' reserved ''
     @ itoa res @ ''/'' @ itoa hard @ '', request '' @ itoa req"

definition ErrQueueUnitAlreadyReserved :: "string \<Rightarrow> string" where
  "ErrQueueUnitAlreadyReserved k = ''queue unit '' @ k @ '' already reserved''"

section \<open>State and operations\<close>

text \<open>The fields of a Kubernetes \<^verbatim>\<open>ResourceQuota\<close> object the plugin reads; a nil map is \<open>None\<close>.\<close>

record 'q QuotaObject =
  quota_Name :: string
  Hard :: "'q ResourceList option"

record 'q ResourceQuota =
  reserved :: "string \<rightharpoonup> 'q ResourceList"
  quRecord :: "string \<rightharpoonup> unit"
  rqLister :: "string \<Rightarrow> string + 'q QuotaObject list"

definition RQ_Name :: string where
  "RQ_Name = ''ResourceQuota''"

definition QueueUnitToKey :: "'q QueueUnitInfo \<Rightarrow> string" where
  "QueueUnitToKey qu = qu_Namespace (Unit qu) @ ''/'' @ qu_Name (Unit qu)"

fun reserve_loop ::
  "'q quantity_ops \<Rightarrow> 'q ResourceList \<Rightarrow> string list \<Rightarrow> 'q ResourceList \<Rightarrow> 'q ResourceList" where
  "reserve_loop Q res [] reservedNS = reservedNS"
| "reserve_loop Q res (rName # rs) reservedNS =
     (case res rName of
        None \<Rightarrow> reserve_loop Q res rs reservedNS
      | Some rQuantity \<Rightarrow>
          (case reservedNS rName of
             Some val \<Rightarrow> reserve_loop Q res rs (reservedNS(rName \<mapsto> q_Add Q rQuantity val))
           | None \<Rightarrow> reserve_loop Q res rs (reservedNS(rName \<mapsto> rQuantity))))"

definition Reserve ::
  "'q quantity_ops \<Rightarrow> ('q ResourceList \<Rightarrow> string list) \<Rightarrow> 'q ResourceQuota \<Rightarrow> 'q QueueUnitInfo
   \<Rightarrow> 'q ResourceQuota \<times> Status option" where
  "Reserve Q ord rq qu =
     (let k = QueueUnitToKey qu in
      if quRecord rq k \<noteq> None then (rq, NewStatus Error (ErrQueueUnitAlreadyReserved k))
      else
        let ns = qu_Namespace (Unit qu);
            reservedNS = (case reserved rq ns of None \<Rightarrow> Map.empty | Some m \<Rightarrow> m);
            res = Resource (qu_Spec (Unit qu));
            reservedNS' = reserve_loop Q res (ord res) reservedNS
        in (rq\<lparr>reserved := (reserved rq)(ns \<mapsto> reservedNS'), quRecord := (quRecord rq)(k \<mapsto> ())\<rparr>,
            NewStatus Success ''''))"

fun unreserve_loop ::
  "'q quantity_ops \<Rightarrow> 'q ResourceList \<Rightarrow> string list \<Rightarrow> 'q ResourceList \<Rightarrow> 'q ResourceList" where
  "unreserve_loop Q res [] reservedNS = reservedNS"
| "unreserve_loop Q res (rName # rs) reservedNS =
     (case res rName of
        None \<Rightarrow> unreserve_loop Q res rs reservedNS
      | Some rQuantity \<Rightarrow>
          (case reservedNS rName of
             None \<Rightarrow> unreserve_loop Q res rs reservedNS
           | Some val \<Rightarrow>
               let val' = q_Sub Q val rQuantity in
               if q_Sign Q val' \<le> 0 then unreserve_loop Q res rs (reservedNS(rName := None))
               else unreserve_loop Q res rs (reservedNS(rName \<mapsto> val'))))"

definition Unreserve ::
  "'q quantity_ops \<Rightarrow> ('q ResourceList \<Rightarrow> string list) \<Rightarrow> 'q ResourceQuota \<Rightarrow> 'q QueueUnitInfo
   \<Rightarrow> 'q ResourceQuota" where
  "Unreserve Q ord rq qu =
     (let k = QueueUnitToKey qu in
      if quRecord rq k = None then rq
      else
        let ns = qu_Namespace (Unit qu) in
        case reserved rq ns of
          None \<Rightarrow> rq
        | Some reservedNS \<Rightarrow>
            let res = Resource (qu_Spec (Unit qu));
                reservedNS' = unreserve_loop Q res (ord res) reservedNS
            in rq\<lparr>reserved := (reserved rq)(ns \<mapsto> reservedNS'), quRecord := (quRecord rq)(k := None)\<rparr>)"

definition GetReservedByResourceName ::
  "'q quantity_ops \<Rightarrow> 'q ResourceQuota \<Rightarrow> string \<Rightarrow> string \<Rightarrow> 'q" where
  "GetReservedByResourceName Q rq ns rName =
     (let reservedNS = (case reserved rq ns of None \<Rightarrow> Map.empty | Some m \<Rightarrow> m) in
      case reservedNS rName of Some val \<Rightarrow> val | None \<Rightarrow> q_Zero Q)"

definition SelectResourceQuota ::
  "'q QuotaObject list \<Rightarrow> string \<Rightarrow> string + 'q QuotaObject" where
  "SelectResourceQuota rqs ns =
     (case rqs of
        [] \<Rightarrow> Inl (ErrNoResourceQuota 0 ns)
      | [rq] \<Rightarrow> Inr rq
      | _ \<Rightarrow> (case find (\<lambda>rq. quota_Name rq = ns) rqs of
               Some rq \<Rightarrow> Inr rq
             | None \<Rightarrow> Inl (ErrNoProperResourceQuotaFound ns)))"

fun filter_loop ::
  "'q quantity_ops \<Rightarrow> 'q ResourceQuota \<Rightarrow> string \<Rightarrow> string \<Rightarrow> 'q ResourceList \<Rightarrow> 'q ResourceList
   \<Rightarrow> string list \<Rightarrow> Status option" where
  "filter_loop Q rq ns basketName hard res [] = NewStatus Success ''''"
| "filter_loop Q rq ns basketName hard res (rName # rs) =
     (case res rName of
        None \<Rightarrow> filter_loop Q rq ns basketName hard res rs
      | Some rQuantity \<Rightarrow>
          (case hard rName of
             None \<Rightarrow> filter_loop Q rq ns basketName hard res rs
           | Some basketQuantity \<Rightarrow>
               let reservedQuantity = q_Add Q (GetReservedByResourceName Q rq ns rName) rQuantity in
               if q_Cmp Q basketQuantity reservedQuantity < 0 then
                 NewStatus Error (ErrResourceQuotaInsufficient rName basketName
                   (q_Value Q reservedQuantity) (q_Value Q basketQuantity) (q_Value Q rQuantity))
               else filter_loop Q rq ns basketName hard res rs))"

definition Filter ::
  "'q quantity_ops \<Rightarrow> ('q ResourceList \<Rightarrow> string list) \<Rightarrow> 'q ResourceQuota \<Rightarrow> 'q QueueUnitInfo
   \<Rightarrow> Status option go" where
  "Filter Q ord rq qu =
     go_bind (consumer_namespace (Unit qu)) (\<lambda>ns.
       case rqLister rq ns of
         Inl err \<Rightarrow> Ok (NewStatus Error err)
       | Inr rqs \<Rightarrow>
           (case SelectResourceQuota rqs ns of
              Inl err \<Rightarrow> Ok (NewStatus Error err)
            | Inr basket \<Rightarrow>
                (case Hard basket of
                   None \<Rightarrow> Ok (NewStatus Error (ErrResourceQuotaStatusHardNil (quota_Name basket)))
                 | Some hard \<Rightarrow>
                     let res = Resource (qu_Spec (Unit qu)) in
                     Ok (filter_loop Q rq ns (quota_Name basket) hard res (ord res)))))"

text \<open>The factory: fresh maps, and the lister that the handle's informer factory provides.\<close>

definition RQ_New ::
  "'q quantity_ops \<Rightarrow> ('q ResourceList \<Rightarrow> string list) \<Rightarrow> ('hd \<Rightarrow> string \<Rightarrow> string + 'q QuotaObject list)
   \<Rightarrow> 'hd \<Rightarrow> 'q ResourceQuota \<Rightarrow> string + ('q, 'q ResourceQuota) Plugin \<times> 'q ResourceQuota" where
  "RQ_New Q ord lister handle s =
     Inr (\<lparr>plugin_Name = RQ_Name, MultiQueueSortPlugin = None, QueueSortPlugin = None,
           FilterPlugin = Some (\<lambda>rq qu. go_bind (Filter Q ord rq qu) (\<lambda>st. Ok (rq, st))),
           ReservePlugin = Some (\<lambda>rq qu. Ok (Reserve Q ord rq qu), \<lambda>rq qu. Ok (Unreserve Q ord rq qu))\<rparr>,
          \<lparr>reserved = Map.empty, quRecord = Map.empty, rqLister = lister handle\<rparr>)"

section \<open>The loops do not depend on the order of the iteration\<close>

lemma reserve_loop_spec:
  "distinct ks \<Longrightarrow>
   reserve_loop Q res ks m r =
     (case res r of
        Some q \<Rightarrow> if r \<in> set ks then Some (case m r of Some v \<Rightarrow> q_Add Q q v | None \<Rightarrow> q) else m r
      | None \<Rightarrow> m r)"
  by (induction ks arbitrary: m) (auto split: option.splits)

lemma unreserve_loop_spec:
  "distinct ks \<Longrightarrow>
   unreserve_loop Q res ks m r =
     (case (res r, m r) of
        (Some q, Some v) \<Rightarrow> if r \<in> set ks then
             (if q_Sign Q (q_Sub Q v q) \<le> 0 then None else Some (q_Sub Q v q)) else m r
      | _ \<Rightarrow> m r)"
  by (induction ks arbitrary: m) (auto simp: Let_def split: option.splits)

text \<open>A resource that the request and the quota both name and whose sum is too large.\<close>

definition exceeds :: "'q quantity_ops \<Rightarrow> 'q ResourceQuota \<Rightarrow> string \<Rightarrow> 'q ResourceList \<Rightarrow> 'q ResourceList \<Rightarrow> string \<Rightarrow> bool"
  where
  "exceeds Q rq ns hard res r \<longleftrightarrow>
     (\<exists>q b. res r = Some q \<and> hard r = Some b \<and> q_Cmp Q b (q_Add Q (GetReservedByResourceName Q rq ns r) q) < 0)"

lemma filter_loop_Code:
  "Status_Code (filter_loop Q rq ns bn hard res ks) =
     Ok (if \<exists>r \<in> set ks. exceeds Q rq ns hard res r then Error else Success)"
  by (induction ks) (auto simp: exceeds_def Let_def split: option.splits)

section \<open>Amounts\<close>

text \<open>What is reserved and what a unit requests, as numbers; an absent resource counts 0.\<close>

definition reserved_amount ::
  "'q quantity_ops \<Rightarrow> ('q \<Rightarrow> rat) \<Rightarrow> 'q ResourceQuota \<Rightarrow> string \<Rightarrow> string \<Rightarrow> rat" where
  "reserved_amount Q amount rq ns r = amount (GetReservedByResourceName Q rq ns r)"

definition request :: "('q \<Rightarrow> rat) \<Rightarrow> 'q QueueUnit \<Rightarrow> string \<Rightarrow> rat" where
  "request amount u r = (case Resource (qu_Spec u) r of None \<Rightarrow> 0 | Some q \<Rightarrow> amount q)"

text \<open>The iteration order is possible, and the request is not negative.\<close>

definition ranges :: "('q ResourceList \<Rightarrow> string list) \<Rightarrow> 'q QueueUnit \<Rightarrow> bool" where
  "ranges ord u \<longleftrightarrow> is_range (ord (Resource (qu_Spec u))) (Resource (qu_Spec u))"

definition nonneg :: "('q \<Rightarrow> rat) \<Rightarrow> 'q QueueUnit \<Rightarrow> bool" where
  "nonneg amount u \<longleftrightarrow> (\<forall>r. 0 \<le> request amount u r)"

lemmas amount_defs = reserved_amount_def GetReservedByResourceName_def request_def

lemma quantity_lawsD:
  assumes "quantity_laws Q amount"
  shows "amount (q_Add Q x y) = amount x + amount y" "amount (q_Sub Q x y) = amount x - amount y"
    "q_Cmp Q x y < 0 \<longleftrightarrow> amount x < amount y" "q_Sign Q x \<le> 0 \<longleftrightarrow> amount x \<le> 0"
    "amount (q_Zero Q) = 0"
  using assms by (auto simp: quantity_laws_def)

text \<open>The amount a resource list holds, 0 where the resource is absent.\<close>

definition held :: "('q \<Rightarrow> rat) \<Rightarrow> 'q ResourceList option \<Rightarrow> string \<Rightarrow> rat" where
  "held amount m r = (case m of None \<Rightarrow> 0 | Some m \<Rightarrow> (case m r of None \<Rightarrow> 0 | Some v \<Rightarrow> amount v))"

lemma reserved_amount_held:
  "quantity_laws Q amount \<Longrightarrow> reserved_amount Q amount rq ns r = held amount (reserved rq ns) r"
  by (simp add: amount_defs held_def quantity_lawsD(5) split: option.splits)

lemma held_reserve_loop:
  assumes "quantity_laws Q amount" "is_range ks res"
  shows "held amount (Some (reserve_loop Q res ks m)) r =
    held amount (Some m) r + (case res r of None \<Rightarrow> 0 | Some q \<Rightarrow> amount q)"
proof -
  have "distinct ks" "r \<in> set ks \<longleftrightarrow> res r \<noteq> None" using assms(2) by (auto simp: is_range_def)
  then show ?thesis
    by (simp add: held_def reserve_loop_spec quantity_lawsD(1) [OF assms(1)] split: option.splits)
qed

lemma held_unreserve_loop:
  assumes "quantity_laws Q amount" "is_range ks res"
    and "0 \<le> (case res r of None \<Rightarrow> 0 | Some q \<Rightarrow> amount q)"
    and "(case res r of None \<Rightarrow> 0 | Some q \<Rightarrow> amount q) \<le> held amount (Some m) r"
  shows "held amount (Some (unreserve_loop Q res ks m)) r =
    held amount (Some m) r - (case res r of None \<Rightarrow> 0 | Some q \<Rightarrow> amount q)"
proof -
  have "distinct ks" "r \<in> set ks \<longleftrightarrow> res r \<noteq> None" using assms(2) by (auto simp: is_range_def)
  then show ?thesis using assms(3,4)
    by (simp add: held_def unreserve_loop_spec quantity_lawsD(2,4) [OF assms(1)] split: option.splits)
qed

lemma Reserve_recorded:
  assumes "quRecord rq (QueueUnitToKey qu) \<noteq> None"
  shows "Reserve Q ord rq qu = (rq, NewStatus Error (ErrQueueUnitAlreadyReserved (QueueUnitToKey qu)))"
  using assms by (simp add: Reserve_def Let_def)

lemma Reserve_fresh:
  assumes "quantity_laws Q amount" "ranges ord (Unit qu)" "quRecord rq (QueueUnitToKey qu) = None"
    and "Reserve Q ord rq qu = (rq', st)"
  shows "st = NewStatus Success '''' \<and> quRecord rq' = (quRecord rq)(QueueUnitToKey qu \<mapsto> ())
    \<and> dom (reserved rq') = insert (qu_Namespace (Unit qu)) (dom (reserved rq)) \<and> rqLister rq' = rqLister rq
    \<and> reserved_amount Q amount rq' ns r = reserved_amount Q amount rq ns r +
         (if ns = qu_Namespace (Unit qu) then request amount (Unit qu) r else 0)"
proof -
  let ?res = "Resource (qu_Spec (Unit qu))" and ?ns = "qu_Namespace (Unit qu)"
  define m where "m = (case reserved rq ?ns of None \<Rightarrow> Map.empty | Some m \<Rightarrow> m)"
  have out: "st = NewStatus Success ''''" "quRecord rq' = (quRecord rq)(QueueUnitToKey qu \<mapsto> ())"
    "reserved rq' = (reserved rq)(?ns \<mapsto> reserve_loop Q ?res (ord ?res) m)" "rqLister rq' = rqLister rq"
    using assms(3,4) by (auto simp: Reserve_def Let_def m_def)
  have "held amount (Some m) r = held amount (reserved rq ?ns) r" for r
    by (simp add: m_def held_def split: option.splits)
  then show ?thesis
    using out assms(2) held_reserve_loop [OF assms(1), of "ord ?res" ?res m r]
    by (simp add: reserved_amount_held [OF assms(1)] ranges_def request_def)
qed

lemma Unreserve_unrecorded:
  "quRecord rq (QueueUnitToKey qu) = None \<Longrightarrow> Unreserve Q ord rq qu = rq"
  by (simp add: Unreserve_def)

lemma Unreserve_recorded:
  assumes "quantity_laws Q amount" "ranges ord (Unit qu)" "quRecord rq (QueueUnitToKey qu) \<noteq> None"
    and "reserved rq (qu_Namespace (Unit qu)) \<noteq> None"
    and "\<And>r. request amount (Unit qu) r \<le> reserved_amount Q amount rq (qu_Namespace (Unit qu)) r"
    and "nonneg amount (Unit qu)"
  shows "quRecord (Unreserve Q ord rq qu) = (quRecord rq)(QueueUnitToKey qu := None)
    \<and> dom (reserved (Unreserve Q ord rq qu)) = dom (reserved rq)
    \<and> rqLister (Unreserve Q ord rq qu) = rqLister rq
    \<and> reserved_amount Q amount (Unreserve Q ord rq qu) ns r = reserved_amount Q amount rq ns r -
         (if ns = qu_Namespace (Unit qu) then request amount (Unit qu) r else 0)"
proof -
  let ?res = "Resource (qu_Spec (Unit qu))" and ?ns = "qu_Namespace (Unit qu)"
  obtain m where m: "reserved rq ?ns = Some m" using assms(4) by blast
  let ?rq = "Unreserve Q ord rq qu"
  have out: "quRecord ?rq = (quRecord rq)(QueueUnitToKey qu := None)" "rqLister ?rq = rqLister rq"
    "reserved ?rq = (reserved rq)(?ns \<mapsto> unreserve_loop Q ?res (ord ?res) m)"
    using assms(3) m by (auto simp: Unreserve_def Let_def)
  have "held amount (Some (unreserve_loop Q ?res (ord ?res) m)) r =
      held amount (Some m) r - request amount (Unit qu) r"
    using held_unreserve_loop [OF assms(1), of "ord ?res" ?res r m] assms(2,5,6) m
    by (simp add: ranges_def request_def nonneg_def reserved_amount_held [OF assms(1)])
  then show ?thesis using out m by (auto simp: reserved_amount_held [OF assms(1)])
qed

section \<open>The ledger of reservations\<close>

text \<open>
  The abstract state: which unit each recorded key stands for. The plugin implements it when the
  reserved amounts are the sums of the requests of the units of each namespace.
\<close>

definition ledger_sum :: "('q \<Rightarrow> rat) \<Rightarrow> (string \<rightharpoonup> 'q QueueUnit) \<Rightarrow> string \<Rightarrow> string \<Rightarrow> rat" where
  "ledger_sum amount L ns r =
     (\<Sum>k | k \<in> dom L \<and> qu_Namespace (the (L k)) = ns. request amount (the (L k)) r)"

definition ledger_ok ::
  "'q quantity_ops \<Rightarrow> ('q \<Rightarrow> rat) \<Rightarrow> 'q ResourceQuota \<Rightarrow> (string \<rightharpoonup> 'q QueueUnit) \<Rightarrow> bool" where
  "ledger_ok Q amount rq L \<longleftrightarrow>
     finite (dom L) \<and> dom (quRecord rq) = dom L \<and>
     (\<forall>k u. L k = Some u \<longrightarrow> nonneg amount u \<and> reserved rq (qu_Namespace u) \<noteq> None) \<and>
     (\<forall>ns r. reserved_amount Q amount rq ns r = ledger_sum amount L ns r)"

lemma ledger_sum_add:
  assumes "finite (dom L)" "L k = None"
  shows "ledger_sum amount (L(k \<mapsto> u)) ns r =
    ledger_sum amount L ns r + (if ns = qu_Namespace u then request amount u r else 0)"
proof -
  let ?K = "{k. k \<in> dom L \<and> qu_Namespace (the (L k)) = ns}"
  have fin: "finite ?K" and notin: "k \<notin> ?K" using assms by auto
  have K: "{k'. k' \<in> dom (L(k \<mapsto> u)) \<and> qu_Namespace (the ((L(k \<mapsto> u)) k')) = ns} =
      (if ns = qu_Namespace u then insert k ?K else ?K)"
    using assms(2) by auto
  have "(\<Sum>k'\<in>?K. request amount (the ((L(k \<mapsto> u)) k')) r) = (\<Sum>k'\<in>?K. request amount (the (L k')) r)"
    by (rule sum.cong) (use notin in auto)
  then have "(\<Sum>k'\<in>insert k ?K. request amount (the ((L(k \<mapsto> u)) k')) r) =
      ledger_sum amount L ns r + request amount u r"
    unfolding ledger_sum_def sum.insert [OF fin notin] by simp
  moreover have "ledger_sum amount (L(k \<mapsto> u)) ns r =
      (\<Sum>k'\<in>(if ns = qu_Namespace u then insert k ?K else ?K). request amount (the ((L(k \<mapsto> u)) k')) r)"
    unfolding ledger_sum_def K ..
  moreover note \<open>(\<Sum>k'\<in>?K. request amount (the ((L(k \<mapsto> u)) k')) r) = _\<close>
  ultimately show ?thesis by (cases "ns = qu_Namespace u") (simp_all add: ledger_sum_def)
qed

lemma ledger_sum_remove:
  assumes "finite (dom L)" "L k = Some u"
  shows "ledger_sum amount (L(k := None)) ns r =
    ledger_sum amount L ns r - (if ns = qu_Namespace u then request amount u r else 0)"
  using ledger_sum_add [of "L(k := None)" k amount u ns r] assms
  by (simp add: fun_upd_idem)

lemma ledger_request_le:
  assumes "finite (dom L)" "\<And>k u. L k = Some u \<Longrightarrow> nonneg amount u" "L k = Some u"
  shows "request amount u r \<le> ledger_sum amount L (qu_Namespace u) r"
proof -
  have "0 \<le> ledger_sum amount (L(k := None)) (qu_Namespace u) r"
    unfolding ledger_sum_def using assms(2) by (intro sum_nonneg) (auto simp: nonneg_def split: if_splits)
  then show ?thesis using ledger_sum_remove [OF assms(1,3)] by simp
qed

lemma ledger_okD:
  assumes "ledger_ok Q amount rq L"
  shows "finite (dom L)" "dom (quRecord rq) = dom L"
    "\<And>k u. L k = Some u \<Longrightarrow> nonneg amount u"
    "\<And>k u. L k = Some u \<Longrightarrow> reserved rq (qu_Namespace u) \<noteq> None"
    "\<And>ns r. reserved_amount Q amount rq ns r = ledger_sum amount L ns r"
  using assms unfolding ledger_ok_def by blast+

lemma ledger_Reserve:
  assumes "quantity_laws Q amount" "ranges ord (Unit qu)" "nonneg amount (Unit qu)"
    and "ledger_ok Q amount rq L" "L (QueueUnitToKey qu) = None" "Reserve Q ord rq qu = (rq', st)"
  shows "st = NewStatus Success '''' \<and> ledger_ok Q amount rq' (L(QueueUnitToKey qu \<mapsto> Unit qu))"
proof -
  note L = ledger_okD [OF assms(4)]
  let ?L = "L(QueueUnitToKey qu \<mapsto> Unit qu)"
  have fresh: "quRecord rq (QueueUnitToKey qu) = None" using L(2) assms(5) by blast
  note R = Reserve_fresh [OF assms(1,2) fresh assms(6)]
  have mono: "reserved rq' n \<noteq> None" if "reserved rq n \<noteq> None \<or> n = qu_Namespace (Unit qu)" for n
    using R that by (metis domIff insert_iff)
  have "finite (dom ?L)" "dom (quRecord rq') = dom ?L" using L(1,2) R by auto
  moreover have "nonneg amount u \<and> reserved rq' (qu_Namespace u) \<noteq> None" if "?L k = Some u" for k u
    using that L(3,4) mono assms(3) by (cases "k = QueueUnitToKey qu") auto
  moreover have "reserved_amount Q amount rq' ns r = ledger_sum amount ?L ns r" for ns r
    using R L(5) ledger_sum_add [OF L(1) assms(5)] by simp
  ultimately show ?thesis using R unfolding ledger_ok_def by blast
qed

lemma ledger_Unreserve:
  assumes "quantity_laws Q amount" "ranges ord (Unit qu)"
    and "ledger_ok Q amount rq L" "L (QueueUnitToKey qu) = Some u"
    and "qu_Namespace u = qu_Namespace (Unit qu)" "Resource (qu_Spec u) = Resource (qu_Spec (Unit qu))"
  shows "ledger_ok Q amount (Unreserve Q ord rq qu) (L(QueueUnitToKey qu := None))"
proof -
  note L = ledger_okD [OF assms(3)]
  let ?k = "QueueUnitToKey qu" and ?rq = "Unreserve Q ord rq qu"
  let ?L = "L(?k := None)"
  have req: "request amount u = request amount (Unit qu)" using assms(6) by (simp add: request_def fun_eq_iff)
  have u: "nonneg amount (Unit qu)" "quRecord rq ?k \<noteq> None" "reserved rq (qu_Namespace (Unit qu)) \<noteq> None"
    using L(2) L(3,4) [OF assms(4)] assms(4,5) req by (auto simp: nonneg_def)
  have "request amount (Unit qu) r \<le> reserved_amount Q amount rq (qu_Namespace (Unit qu)) r" for r
    using ledger_request_le [OF L(1) _ assms(4), of amount r] L(3,5) assms(5) req by metis
  note U = Unreserve_recorded [OF assms(1,2) u(2,3) this u(1)]
  have mono: "reserved ?rq n \<noteq> None" if "reserved rq n \<noteq> None" for n
    using U that by (metis domIff)
  have "finite (dom ?L)" "dom (quRecord ?rq) = dom ?L" using L(1,2) U by auto
  moreover have "nonneg amount v \<and> reserved ?rq (qu_Namespace v) \<noteq> None" if "?L k = Some v" for k v
    using that L(3,4) mono by (cases "k = ?k") auto
  moreover have "reserved_amount Q amount ?rq ns r = ledger_sum amount ?L ns r" for ns r
    using U L(5) ledger_sum_remove [OF L(1) assms(4)] assms(5) req by simp
  ultimately show ?thesis unfolding ledger_ok_def by blast
qed

section \<open>Quota\<close>

text \<open>What the quota selected for a namespace limits is within its hard limits.\<close>

definition within_quota :: "'q quantity_ops \<Rightarrow> ('q \<Rightarrow> rat) \<Rightarrow> 'q ResourceQuota \<Rightarrow> string \<Rightarrow> bool" where
  "within_quota Q amount rq ns \<longleftrightarrow>
     (\<forall>rqs basket hard r b.
        rqLister rq ns = Inr rqs \<longrightarrow> SelectResourceQuota rqs ns = Inr basket \<longrightarrow>
        Hard basket = Some hard \<longrightarrow> hard r = Some b \<longrightarrow> reserved_amount Q amount rq ns r \<le> amount b)"

text \<open>What a successful \<open>Filter\<close> has checked.\<close>

lemma Filter_success:
  assumes "quantity_laws Q amount" "ranges ord (Unit qu)"
    and "Filter Q ord rq qu = Ok st" "Status_Code st = Ok Success"
  shows "\<exists>ns rqs basket hard. consumer_namespace (Unit qu) = Ok ns \<and> rqLister rq ns = Inr rqs
    \<and> SelectResourceQuota rqs ns = Inr basket \<and> Hard basket = Some hard
    \<and> (\<forall>r q b. Resource (qu_Spec (Unit qu)) r = Some q \<longrightarrow> hard r = Some b \<longrightarrow>
          reserved_amount Q amount rq ns r + amount q \<le> amount b)"
proof -
  from assms(3) obtain ns where ns: "consumer_namespace (Unit qu) = Ok ns"
    by (auto simp: Filter_def go_bind_eq_Ok)
  with assms(3,4) obtain rqs basket hard where
    *: "rqLister rq ns = Inr rqs"
       "SelectResourceQuota rqs ns = Inr basket" "Hard basket = Some hard"
    and st: "st = filter_loop Q rq ns (quota_Name basket) hard (Resource (qu_Spec (Unit qu)))
        (ord (Resource (qu_Spec (Unit qu))))"
    by (auto simp: Filter_def Let_def split: sum.splits option.splits)
  from st assms(4) have "\<forall>r \<in> set (ord (Resource (qu_Spec (Unit qu)))).
      \<not> exceeds Q rq ns hard (Resource (qu_Spec (Unit qu))) r"
    by (auto simp: filter_loop_Code split: if_splits)
  then have "reserved_amount Q amount rq ns r + amount q \<le> amount b"
    if "Resource (qu_Spec (Unit qu)) r = Some q" "hard r = Some b" for r q b
    using that assms(2) quantity_lawsD [OF assms(1)]
    by (fastforce simp: exceeds_def ranges_def is_range_def reserved_amount_def not_less)
  with ns * show ?thesis by blast
qed

text \<open>C6. Quota safety: when a unit whose job lives in the unit's own namespace passes \<open>Filter\<close> and is
  then reserved, no resource that the namespace's quota limits is reserved beyond its hard limit.\<close>

theorem filter_then_reserve_within_quota:
  assumes "quantity_laws Q amount" "ranges ord (Unit qu)"
    and "consumer_namespace (Unit qu) = Ok ns" "qu_Namespace (Unit qu) = ns"
    and "within_quota Q amount rq ns"
    and "Filter Q ord rq qu = Ok st" "Status_Code st = Ok Success"
    and "Reserve Q ord rq qu = (rq', st')"
  shows "within_quota Q amount rq' ns"
proof (cases "quRecord rq (QueueUnitToKey qu) = None")
  case True
  note R = Reserve_fresh [OF assms(1,2) True assms(8), of ns]
  from Filter_success [OF assms(1,2,6,7)] assms(3) show ?thesis
    using R assms(4,5) by (fastforce simp: within_quota_def request_def split: option.splits)
qed (use assms(5,8) in \<open>simp add: Reserve_recorded\<close>)

theorem filter_then_reserve_within_quota_witness:
  "within_quota int_quantity of_int
     (fst (Reserve int_quantity cpu_order
        \<lparr>reserved = Map.empty, quRecord = Map.empty,
         rqLister = (\<lambda>ns. Inr [\<lparr>quota_Name = ''q'', Hard = Some (cpu_list 4)\<rparr>])\<rparr>
        (NewQueueUnitInfo 0 0 (sample_unit ''a'' ''j'' ''a'' None (cpu_list 3))))) ''a''"
  by (rule filter_then_reserve_within_quota [OF int_quantity_laws, where ord = cpu_order
        and qu = "NewQueueUnitInfo 0 0 (sample_unit ''a'' ''j'' ''a'' None (cpu_list 3))"
        and rq = "\<lparr>reserved = Map.empty, quRecord = Map.empty,
           rqLister = (\<lambda>ns. Inr [\<lparr>quota_Name = ''q'', Hard = Some (cpu_list 4)\<rparr>])\<rparr>"
        and st = "NewStatus Success ''''"])
     (simp_all add: sample_defs ranges_def is_range_def consumer_namespace_def within_quota_def
        amount_defs Filter_def SelectResourceQuota_def prod_eq_iff)


text \<open>C27. Round trip: unreserving a unit right after reserving it restores every reserved amount and the
  record of units, for any iteration orders of the two loops.\<close>

theorem reserve_unreserve_roundtrip:
  assumes "quantity_laws Q amount" "ranges ord (Unit qu)" "ranges ord' (Unit qu)" "nonneg amount (Unit qu)"
    and "\<forall>ns r. 0 \<le> reserved_amount Q amount rq ns r" "quRecord rq (QueueUnitToKey qu) = None"
  shows "quRecord (Unreserve Q ord' (fst (Reserve Q ord rq qu)) qu) = quRecord rq
    \<and> (\<forall>ns r. reserved_amount Q amount (Unreserve Q ord' (fst (Reserve Q ord rq qu)) qu) ns r
         = reserved_amount Q amount rq ns r)"
proof -
  obtain rq' st where R: "Reserve Q ord rq qu = (rq', st)" by fastforce
  note F = Reserve_fresh [OF assms(1,2,6) R]
  have rec: "quRecord rq' (QueueUnitToKey qu) \<noteq> None" "reserved rq' (qu_Namespace (Unit qu)) \<noteq> None"
    using F by auto
  have "request amount (Unit qu) r \<le> reserved_amount Q amount rq' (qu_Namespace (Unit qu)) r" for r
    using F assms(5) by simp
  note U = Unreserve_recorded [OF assms(1,3) rec this assms(4)]
  show ?thesis using U F R assms(6) by (simp add: fun_upd_idem)
qed

theorem reserve_unreserve_roundtrip_witness:
  "\<forall>ns r. reserved_amount int_quantity of_int
     (Unreserve int_quantity cpu_order
        (fst (Reserve int_quantity cpu_order
           \<lparr>reserved = [''a'' \<mapsto> cpu_list 2], quRecord = Map.empty, rqLister = (\<lambda>ns. Inl [])\<rparr>
           (NewQueueUnitInfo 0 0 (sample_unit ''a'' ''j'' ''a'' None (cpu_list 3)))))
        (NewQueueUnitInfo 0 0 (sample_unit ''a'' ''j'' ''a'' None (cpu_list 3)))) ns r
   = reserved_amount int_quantity of_int
       \<lparr>reserved = [''a'' \<mapsto> cpu_list 2], quRecord = Map.empty, rqLister = (\<lambda>ns. Inl [])\<rparr> ns r"
  by (rule reserve_unreserve_roundtrip [OF int_quantity_laws, THEN conjunct2])
     (auto simp: sample_defs ranges_def is_range_def nonneg_def amount_defs split: option.splits)

section \<open>Runs of the plugin refine the ledger\<close>

datatype 'q rq_op = OpReserve "'q QueueUnitInfo" | OpUnreserve "'q QueueUnitInfo"

primrec op_unit :: "'q rq_op \<Rightarrow> 'q QueueUnitInfo" where
  "op_unit (OpReserve qu) = qu"
| "op_unit (OpUnreserve qu) = qu"

primrec rq_step ::
  "'q quantity_ops \<Rightarrow> ('q ResourceList \<Rightarrow> string list) \<Rightarrow> 'q ResourceQuota \<Rightarrow> 'q rq_op \<Rightarrow> 'q ResourceQuota" where
  "rq_step Q ord rq (OpReserve qu) = fst (Reserve Q ord rq qu)"
| "rq_step Q ord rq (OpUnreserve qu) = Unreserve Q ord rq qu"

text \<open>The specification: a map from keys to the units that hold a reservation.\<close>

primrec ledger_step :: "(string \<rightharpoonup> 'q QueueUnit) \<Rightarrow> 'q rq_op \<Rightarrow> (string \<rightharpoonup> 'q QueueUnit)" where
  "ledger_step L (OpReserve qu) =
     (if QueueUnitToKey qu \<in> dom L then L else L(QueueUnitToKey qu \<mapsto> Unit qu))"
| "ledger_step L (OpUnreserve qu) = L(QueueUnitToKey qu := None)"

text \<open>Units with the same key are the same unit: same namespace, same request.\<close>

definition same_unit :: "'q QueueUnit \<Rightarrow> 'q QueueUnit \<Rightarrow> bool" where
  "same_unit u v \<longleftrightarrow> qu_Namespace u = qu_Namespace v \<and> Resource (qu_Spec u) = Resource (qu_Spec v)"

definition ops_ok :: "('q \<Rightarrow> rat) \<Rightarrow> ('q ResourceList \<Rightarrow> string list) \<Rightarrow> 'q rq_op list \<Rightarrow> bool" where
  "ops_ok amount ord ops \<longleftrightarrow>
     (\<forall>p \<in> set ops. ranges ord (Unit (op_unit p)) \<and> nonneg amount (Unit (op_unit p))) \<and>
     (\<forall>p \<in> set ops. \<forall>q \<in> set ops. QueueUnitToKey (op_unit p) = QueueUnitToKey (op_unit q) \<longrightarrow>
        same_unit (Unit (op_unit p)) (Unit (op_unit q)))"

lemma rq_step_ledger:
  assumes "quantity_laws Q amount" "ranges ord (Unit (op_unit p))" "nonneg amount (Unit (op_unit p))"
    and "ledger_ok Q amount rq L"
    and "\<And>u. L (QueueUnitToKey (op_unit p)) = Some u \<Longrightarrow> same_unit u (Unit (op_unit p))"
  shows "ledger_ok Q amount (rq_step Q ord rq p) (ledger_step L p)"
proof (cases p)
  case (OpReserve qu)
  show ?thesis
  proof (cases "L (QueueUnitToKey qu)")
    case None
    then show ?thesis using OpReserve assms ledger_Reserve [OF assms(1), of ord qu rq L]
      by (metis domIff fst_conv ledger_step.simps(1) op_unit.simps(1) prod.collapse rq_step.simps(1))
  next
    case (Some u)
    then have "quRecord rq (QueueUnitToKey qu) \<noteq> None" using ledger_okD(2) [OF assms(4)] by blast
    then show ?thesis using OpReserve Some assms(4) by (auto simp: Reserve_recorded)
  qed
next
  case (OpUnreserve qu)
  show ?thesis
  proof (cases "L (QueueUnitToKey qu)")
    case None
    then have "quRecord rq (QueueUnitToKey qu) = None" using ledger_okD(2) [OF assms(4)] by blast
    then show ?thesis using OpUnreserve None assms(4) by (simp add: Unreserve_unrecorded fun_upd_idem)
  next
    case (Some u)
    then show ?thesis using OpUnreserve assms ledger_Unreserve [OF assms(1), of ord qu rq L u]
      by (auto simp: same_unit_def)
  qed
qed

lemma rq_run_ledger:
  assumes "quantity_laws Q amount" "ops_ok amount ord (done @ ops)"
    and "ledger_ok Q amount rq L"
    and "\<And>k u. L k = Some u \<Longrightarrow> \<exists>p \<in> set done. QueueUnitToKey (op_unit p) = k \<and> Unit (op_unit p) = u"
  shows "ledger_ok Q amount (foldl (rq_step Q ord) rq ops) (foldl ledger_step L ops)"
  using assms(2-4)
proof (induction ops arbitrary: rq L "done")
  case (Cons p ops)
  have p: "ranges ord (Unit (op_unit p))" "nonneg amount (Unit (op_unit p))"
    using Cons.prems(1) by (auto simp: ops_ok_def)
  have "same_unit u (Unit (op_unit p))" if "L (QueueUnitToKey (op_unit p)) = Some u" for u
    using Cons.prems(1) Cons.prems(3) [OF that] by (fastforce simp: ops_ok_def)
  then have step: "ledger_ok Q amount (rq_step Q ord rq p) (ledger_step L p)"
    using rq_step_ledger [OF assms(1) p Cons.prems(2)] by blast
  have "\<exists>p' \<in> set (done @ [p]). QueueUnitToKey (op_unit p') = k \<and> Unit (op_unit p') = u"
    if "ledger_step L p k = Some u" for k u
    using that Cons.prems(3) by (cases p) (force split: if_splits)+
  then show ?case using Cons.IH [of "done @ [p]", OF _ step] Cons.prems(1) by simp
qed simp



end
