(* ===== verification/Framework_Runtime.thy ===== *)
theory Framework_Runtime
  imports Priority_Plugin Resource_Quota
begin

text \<open>
  The model of \<^verbatim>\<open>pkg/framework/runtime\<close> and of the in-tree registry
  (\<^verbatim>\<open>pkg/framework/plugins/registry.go\<close>). A registry maps plugin names to factories;
  \<open>NewFramework\<close> ranges over it in an order that is an argument, sorts the plugins by the
  interfaces they implement and stops at the first factory that fails. The run methods call the
  plugins in order and stop at the first status that is not \<open>Success\<close>. Locale
  \<open>framework_client\<close> is the interface the scheduler uses; it is interpreted on the framework
  built from the in-tree registry.
\<close>

section \<open>The framework\<close>

text \<open>A factory gets the handle and returns an error, or the plugin with its state set up.\<close>

type_synonym ('q, 's, 'hd) PluginFactory = "'hd \<Rightarrow> 's \<Rightarrow> string + ('q, 's) Plugin \<times> 's"
type_synonym ('q, 's, 'hd) Registry = "string \<rightharpoonup> ('q, 's, 'hd) PluginFactory"

record ('q, 's, 'hd) frameworkImpl =
  multiQueueSortPlugin :: "('q, 's) Plugin option"
  filterPlugins :: "('q, 's) Plugin list"
  queueSortPlugins :: "('q, 's) Plugin list"
  reservePlugins :: "('q, 's) Plugin list"
  fw_handle :: 'hd

text \<open>A method value of a nil interface panics.\<close>

definition MultiQueueSortFunc :: "('q, 's, 'hd) frameworkImpl \<Rightarrow> MultiQueueLessFunc go" where
  "MultiQueueSortFunc f =
     (case multiQueueSortPlugin f of
        None \<Rightarrow> Panic NilDereference
      | Some p \<Rightarrow> (case MultiQueueSortPlugin p of
            None \<Rightarrow> Panic NilDereference
          | Some lessFn \<Rightarrow> Ok lessFn))"

definition QueueSortFuncMap :: "('q, 's, 'hd) frameworkImpl \<Rightarrow> string \<rightharpoonup> 'q QueueLessFunc" where
  "QueueSortFuncMap f =
     foldl (\<lambda>m plugin. case QueueSortPlugin plugin of
         None \<Rightarrow> m
       | Some lessFn \<Rightarrow> m(plugin_Name plugin \<mapsto> lessFn)) Map.empty (queueSortPlugins f)"

text \<open>
  The loop shared by \<^verbatim>\<open>RunFilterPlugins\<close> and \<^verbatim>\<open>RunReservePluginsReserve\<close>; each call is
  a method of a plugin in the list, so the methods are given as a list of functions.
\<close>

fun run_plugins :: "('q, 's) FilterFunc list \<Rightarrow> ('q, 's) FilterFunc" where
  "run_plugins [] s u = Ok (s, NewStatus Success '''')"
| "run_plugins (pl # pls) s u =
     go_bind (pl s u) (\<lambda>(s', pluginStatus).
     go_bind (Status_Code pluginStatus) (\<lambda>c.
       if c \<noteq> Success then Ok (s', pluginStatus) else run_plugins pls s' u))"

definition RunFilterPlugins :: "('q, 's, 'hd) frameworkImpl \<Rightarrow> ('q, 's) FilterFunc" where
  "RunFilterPlugins f = run_plugins (List.map_filter FilterPlugin (filterPlugins f))"

definition RunScorePlugins :: "('q, 's, 'hd) frameworkImpl \<Rightarrow> int64 \<times> bool" where
  "RunScorePlugins f = (0, False)"

definition RunReservePluginsReserve :: "('q, 's, 'hd) frameworkImpl \<Rightarrow> ('q, 's) FilterFunc" where
  "RunReservePluginsReserve f =
     run_plugins (map fst (List.map_filter ReservePlugin (reservePlugins f)))"

fun run_unreserve :: "('q, 's) UnreserveFunc list \<Rightarrow> ('q, 's) UnreserveFunc" where
  "run_unreserve [] s u = Ok s"
| "run_unreserve (pl # pls) s u = go_bind (pl s u) (\<lambda>s'. run_unreserve pls s' u)"

definition RunReservePluginsUnreserve :: "('q, 's, 'hd) frameworkImpl \<Rightarrow> ('q, 's) UnreserveFunc" where
  "RunReservePluginsUnreserve f =
     run_unreserve (map snd (List.map_filter ReservePlugin (reservePlugins f)))"

text \<open>The methods of the interface \<^verbatim>\<open>Handle\<close>.\<close>

definition fw_SharedInformerFactory :: "('q, 's, ('i, 'c) Handle) frameworkImpl \<Rightarrow> 'i" where
  "fw_SharedInformerFactory f = SharedInformerFactory (fw_handle f)"

definition fw_KubeConfigPath :: "('q, 's, ('i, 'c) Handle) frameworkImpl \<Rightarrow> string" where
  "fw_KubeConfigPath f = KubeConfigPath (fw_handle f)"

definition fw_QueueUnitClient :: "('q, 's, ('i, 'c) Handle) frameworkImpl \<Rightarrow> 'c" where
  "fw_QueueUnitClient f = QueueUnitClient (fw_handle f)"

text \<open>
  One round of the loop of \<^verbatim>\<open>NewFramework\<close>: the type assertions, in the order of the
  source. The framework passed to the factory is the handle.
\<close>

definition add_plugin ::
  "('q, 's) Plugin \<Rightarrow> ('q, 's, 'hd) frameworkImpl \<Rightarrow> ('q, 's, 'hd) frameworkImpl" where
  "add_plugin p f =
     (let f1 = (if QueueSortPlugin p \<noteq> None then f\<lparr>queueSortPlugins := queueSortPlugins f @ [p]\<rparr> else f);
          f2 = (if MultiQueueSortPlugin p \<noteq> None then f1\<lparr>multiQueueSortPlugin := Some p\<rparr> else f1);
          f3 = (if FilterPlugin p \<noteq> None then f2\<lparr>filterPlugins := filterPlugins f2 @ [p]\<rparr> else f2)
      in if ReservePlugin p \<noteq> None then f3\<lparr>reservePlugins := reservePlugins f3 @ [p]\<rparr> else f3)"

fun new_framework_loop ::
  "('q, 's, 'hd) Registry \<Rightarrow> string list \<Rightarrow> ('q, 's, 'hd) frameworkImpl \<Rightarrow> 's
   \<Rightarrow> string + ('q, 's, 'hd) frameworkImpl \<times> 's" where
  "new_framework_loop r [] f s = Inr (f, s)"
| "new_framework_loop r (n # ns) f s =
     (case r n of
        None \<Rightarrow> new_framework_loop r ns f s
      | Some factory \<Rightarrow>
          (case factory (fw_handle f) s of
             Inl err \<Rightarrow> Inl err
           | Inr (p, s') \<Rightarrow> new_framework_loop r ns (add_plugin p f) s'))"

text \<open>\<open>ks\<close> is the order in which the registry is visited.\<close>

definition NewFramework ::
  "string list \<Rightarrow> ('q, 's, 'hd) Registry \<Rightarrow> 'hd \<Rightarrow> 's \<Rightarrow> string + ('q, 's, 'hd) frameworkImpl \<times> 's" where
  "NewFramework ks r handle s =
     new_framework_loop r ks
       \<lparr>multiQueueSortPlugin = None, filterPlugins = [], queueSortPlugins = [], reservePlugins = [],
        fw_handle = handle\<rparr> s"

definition NewInTreeRegistry ::
  "'q quantity_ops \<Rightarrow> ('q ResourceList \<Rightarrow> string list) \<Rightarrow> ('hd \<Rightarrow> string \<Rightarrow> string + 'q QuotaObject list)
   \<Rightarrow> ('q, 'q ResourceQuota, 'hd) Registry" where
  "NewInTreeRegistry Q ord lister = [RQ_Name \<mapsto> RQ_New Q ord lister, Priority_Name \<mapsto> Priority_New]"

section \<open>The in-tree framework\<close>

definition rq_plugin ::
  "'q quantity_ops \<Rightarrow> ('q ResourceList \<Rightarrow> string list) \<Rightarrow> ('q, 'q ResourceQuota) Plugin" where
  "rq_plugin Q ord =
     \<lparr>plugin_Name = RQ_Name, MultiQueueSortPlugin = None, QueueSortPlugin = None,
      FilterPlugin = Some (\<lambda>rq qu. go_bind (Filter Q ord rq qu) (\<lambda>st. Ok (rq, st))),
      ReservePlugin = Some (\<lambda>rq qu. Ok (Reserve Q ord rq qu), \<lambda>rq qu. Ok (Unreserve Q ord rq qu))\<rparr>"

definition priority_plugin :: "('q, 's) Plugin" where
  "priority_plugin =
     \<lparr>plugin_Name = Priority_Name, MultiQueueSortPlugin = Some MultiQueueLess,
      QueueSortPlugin = Some QueueLess, FilterPlugin = None, ReservePlugin = None\<rparr>"

definition in_tree_framework ::
  "'q quantity_ops \<Rightarrow> ('q ResourceList \<Rightarrow> string list) \<Rightarrow> 'hd \<Rightarrow> ('q, 'q ResourceQuota, 'hd) frameworkImpl" where
  "in_tree_framework Q ord handle =
     \<lparr>multiQueueSortPlugin = Some priority_plugin, filterPlugins = [rq_plugin Q ord],
      queueSortPlugins = [priority_plugin], reservePlugins = [rq_plugin Q ord], fw_handle = handle\<rparr>"

lemma names_distinct [simp]: "RQ_Name \<noteq> Priority_Name" "Priority_Name \<noteq> RQ_Name"
  by (simp_all add: RQ_Name_def Priority_Name_def)

lemma in_tree_orders:
  assumes "is_range ks (NewInTreeRegistry Q ord lister)"
  shows "ks = [RQ_Name, Priority_Name] \<or> ks = [Priority_Name, RQ_Name]"
proof -
  have ks: "distinct ks" "set ks = {RQ_Name, Priority_Name}"
    using assms by (auto simp: is_range_def NewInTreeRegistry_def)
  then have "length ks = 2" using distinct_card [OF ks(1)] by simp
  then obtain a b where "ks = [a, b]" by (auto simp: numeral_2_eq_2 length_Suc_conv)
  with ks show ?thesis by (auto simp: doubleton_eq_iff)
qed

text \<open>C34. Whatever order the registry is ranged over, \<open>NewFramework\<close> on the in-tree registry succeeds
  with the same framework: the priority plugin sorts queues and units, the resource quota plugin
  filters and reserves, and the plugin state starts empty.\<close>

theorem new_framework_in_tree:
  assumes "is_range ks (NewInTreeRegistry Q ord lister)"
  shows "NewFramework ks (NewInTreeRegistry Q ord lister) handle s =
    Inr (in_tree_framework Q ord handle,
         \<lparr>reserved = Map.empty, quRecord = Map.empty, rqLister = lister handle\<rparr>)"
  using in_tree_orders [OF assms]
  by (auto simp: NewFramework_def NewInTreeRegistry_def in_tree_framework_def add_plugin_def Let_def
      RQ_New_def Priority_New_def rq_plugin_def priority_plugin_def)

theorem new_framework_in_tree_witness:
  "NewFramework [Priority_Name, RQ_Name] (NewInTreeRegistry int_quantity cpu_order (\<lambda>_ _. Inl [])) ()
      \<lparr>reserved = Map.empty, quRecord = Map.empty, rqLister = (\<lambda>_. Inl [])\<rparr> =
    Inr (in_tree_framework int_quantity cpu_order (),
         \<lparr>reserved = Map.empty, quRecord = Map.empty, rqLister = (\<lambda>_. Inl [])\<rparr>)"
  by (rule new_framework_in_tree) (auto simp: is_range_def NewInTreeRegistry_def)

lemma in_tree_funcs [simp]:
  "MultiQueueSortFunc (in_tree_framework Q ord handle) = Ok MultiQueueLess"
  "QueueSortFuncMap (in_tree_framework Q ord handle) = [Priority_Name \<mapsto> QueueLess]"
  by (simp_all add: MultiQueueSortFunc_def QueueSortFuncMap_def in_tree_framework_def priority_plugin_def)

lemma in_tree_Filter [simp]:
  "RunFilterPlugins (in_tree_framework Q ord handle) rq u =
     go_bind (Filter Q ord rq u) (\<lambda>st. go_bind (Status_Code st) (\<lambda>c.
       Ok (rq, if c \<noteq> Success then st else NewStatus Success '''')))"
  by (simp add: RunFilterPlugins_def in_tree_framework_def rq_plugin_def map_filter_simps go_bind_assoc
      if_distrib [of Ok])
    (auto intro!: go_bind_cong)

lemma in_tree_Reserve [simp]:
  "RunReservePluginsReserve (in_tree_framework Q ord handle) rq u =
     Ok (if quRecord rq (QueueUnitToKey u) = None
         then (fst (Reserve Q ord rq u), NewStatus Success '''')
         else (rq, NewStatus Error (ErrQueueUnitAlreadyReserved (QueueUnitToKey u))))"
  by (simp add: RunReservePluginsReserve_def in_tree_framework_def rq_plugin_def map_filter_simps
      Reserve_def Let_def)

lemma in_tree_Unreserve [simp]:
  "RunReservePluginsUnreserve (in_tree_framework Q ord handle) rq u = Ok (Unreserve Q ord rq u)"
  by (simp add: RunReservePluginsUnreserve_def in_tree_framework_def rq_plugin_def map_filter_simps)

section \<open>Every plugin where its interfaces say\<close>

text \<open>The plugins the factories make, in the order of the registry, with the state they leave.\<close>

fun make_plugins ::
  "('q, 's, 'hd) Registry \<Rightarrow> 'hd \<Rightarrow> string list \<Rightarrow> 's \<Rightarrow> string + ('q, 's) Plugin list \<times> 's" where
  "make_plugins r handle [] s = Inr ([], s)"
| "make_plugins r handle (n # ns) s =
     (case r n of
        None \<Rightarrow> make_plugins r handle ns s
      | Some factory \<Rightarrow>
          (case factory handle s of
             Inl err \<Rightarrow> Inl err
           | Inr (p, s') \<Rightarrow>
               (case make_plugins r handle ns s' of Inl err \<Rightarrow> Inl err | Inr (ps, s'') \<Rightarrow> Inr (p # ps, s''))))"

definition sorted_in :: "('q, 's) Plugin list \<Rightarrow> ('q, 's, 'hd) frameworkImpl \<Rightarrow> ('q, 's, 'hd) frameworkImpl" where
  "sorted_in ps f =
     f\<lparr>multiQueueSortPlugin := (case find (\<lambda>p. MultiQueueSortPlugin p \<noteq> None) (rev ps) of
           None \<Rightarrow> multiQueueSortPlugin f | Some p \<Rightarrow> Some p),
       filterPlugins := filterPlugins f @ filter (\<lambda>p. FilterPlugin p \<noteq> None) ps,
       queueSortPlugins := queueSortPlugins f @ filter (\<lambda>p. QueueSortPlugin p \<noteq> None) ps,
       reservePlugins := reservePlugins f @ filter (\<lambda>p. ReservePlugin p \<noteq> None) ps\<rparr>"

lemma find_append: "find P (xs @ ys) = (case find P xs of None \<Rightarrow> find P ys | Some x \<Rightarrow> Some x)"
  by (induction xs) auto

lemma sorted_in_Cons: "sorted_in ps (add_plugin p f) = sorted_in (p # ps) f"
  by (auto simp: sorted_in_def add_plugin_def Let_def find_append split: option.splits)

lemma handle_add_plugin [simp]: "fw_handle (add_plugin p f) = fw_handle f"
  by (simp add: add_plugin_def Let_def)

lemma new_framework_loop_makes:
  "new_framework_loop r ks f s =
     (case make_plugins r (fw_handle f) ks s of Inl err \<Rightarrow> Inl err | Inr (ps, s') \<Rightarrow> Inr (sorted_in ps f, s'))"
proof (induction ks arbitrary: f s)
  case (Cons n ns)
  then show ?case by (auto simp: sorted_in_Cons split: option.splits sum.splits)
qed (simp add: sorted_in_def)

lemma map_filter_all: "\<forall>x \<in> set xs. f x \<noteq> None \<Longrightarrow> length (List.map_filter f xs) = length xs"
  by (induction xs) (auto simp: map_filter_simps)

text \<open>C33. Type safety of the framework: for any registry, \<open>NewFramework\<close> fails exactly if a factory does,
  and otherwise puts each plugin the factories made into the lists of just the interfaces it
  implements; of several that sort queues, the last one wins. So every call of the run methods finds its method, and \<open>MultiQueueSortFunc\<close> panics only
  if no plugin of the registry sorts queues.\<close>

theorem new_framework_well_typed:
  "case make_plugins r handle ks s of
     Inl err \<Rightarrow> NewFramework ks r handle s = Inl err
   | Inr (ps, s') \<Rightarrow> \<exists>f. NewFramework ks r handle s = Inr (f, s') \<and> fw_handle f = handle
       \<and> filterPlugins f = filter (\<lambda>p. FilterPlugin p \<noteq> None) ps
       \<and> queueSortPlugins f = filter (\<lambda>p. QueueSortPlugin p \<noteq> None) ps
       \<and> multiQueueSortPlugin f = find (\<lambda>p. MultiQueueSortPlugin p \<noteq> None) (rev ps)
       \<and> reservePlugins f = filter (\<lambda>p. ReservePlugin p \<noteq> None) ps
       \<and> length (List.map_filter FilterPlugin (filterPlugins f)) = length (filterPlugins f)
       \<and> length (List.map_filter ReservePlugin (reservePlugins f)) = length (reservePlugins f)
       \<and> (panics (MultiQueueSortFunc f) \<longleftrightarrow> \<not> (\<exists>p \<in> set ps. MultiQueueSortPlugin p \<noteq> None))"
proof (cases "make_plugins r handle ks s")
  case (Inr b)
  obtain ps s' where b: "b = (ps, s')" by force
  let ?f = "sorted_in ps \<lparr>multiQueueSortPlugin = None, filterPlugins = [], queueSortPlugins = [], reservePlugins = [],
    fw_handle = handle\<rparr>"
  have "panics (MultiQueueSortFunc ?f) \<longleftrightarrow> \<not> (\<exists>p \<in> set ps. MultiQueueSortPlugin p \<noteq> None)"
  proof (cases "find (\<lambda>p. MultiQueueSortPlugin p \<noteq> None) (rev ps)")
    case (Some p)
    then obtain i where i: "i < length (rev ps)" "MultiQueueSortPlugin p \<noteq> None" "p = rev ps ! i"
      unfolding find_Some_iff by blast
    then have "p \<in> set (rev ps)" by (metis nth_mem)
    then have "p \<in> set ps" by simp
    with Some i(2) show ?thesis by (auto simp: sorted_in_def MultiQueueSortFunc_def)
  next
    case None
    moreover from this have "\<not> (\<exists>p \<in> set ps. MultiQueueSortPlugin p \<noteq> None)" unfolding find_None_iff by auto
    ultimately show ?thesis by (simp add: sorted_in_def MultiQueueSortFunc_def)
  qed
  moreover have "NewFramework ks r handle s = Inr (?f, s')" using Inr b by (simp add: NewFramework_def new_framework_loop_makes)
  moreover have "multiQueueSortPlugin ?f = find (\<lambda>p. MultiQueueSortPlugin p \<noteq> None) (rev ps)"
    by (simp add: sorted_in_def split: option.split)
  ultimately show ?thesis using Inr b by (simp add: sorted_in_def map_filter_all)
qed (simp add: NewFramework_def new_framework_loop_makes)

section \<open>The interface the scheduler uses\<close>

text \<open>
  The methods return, never with a nil status, for units whose \<^verbatim>\<open>ConsumerRef\<close> is set.
\<close>

definition unit_ok :: "'q QueueUnitInfo \<Rightarrow> bool" where
  "unit_ok x \<longleftrightarrow> ConsumerRef (qu_Spec (Unit x)) \<noteq> None"

text \<open>The interface \<^verbatim>\<open>Framework\<close> as a record of methods, and the type that implements it.\<close>

record ('q, 's) Framework =
  fi_MultiQueueSortFunc :: "MultiQueueLessFunc go"
  fi_QueueSortFuncMap :: "string \<rightharpoonup> 'q QueueLessFunc"
  fi_RunFilterPlugins :: "('q, 's) FilterFunc"
  fi_RunScorePlugins :: "int64 \<times> bool"
  fi_RunReservePluginsReserve :: "('q, 's) FilterFunc"
  fi_RunReservePluginsUnreserve :: "('q, 's) UnreserveFunc"

definition framework_methods :: "('q, 's, 'hd) frameworkImpl \<Rightarrow> ('q, 's) Framework" where
  "framework_methods f =
     \<lparr>fi_MultiQueueSortFunc = MultiQueueSortFunc f, fi_QueueSortFuncMap = QueueSortFuncMap f,
      fi_RunFilterPlugins = RunFilterPlugins f, fi_RunScorePlugins = RunScorePlugins f,
      fi_RunReservePluginsReserve = RunReservePluginsReserve f,
      fi_RunReservePluginsUnreserve = RunReservePluginsUnreserve f\<rparr>"

lemma framework_methods_simps [simp]:
  "fi_MultiQueueSortFunc (framework_methods f) = MultiQueueSortFunc f"
  "fi_QueueSortFuncMap (framework_methods f) = QueueSortFuncMap f"
  "fi_RunFilterPlugins (framework_methods f) = RunFilterPlugins f"
  "fi_RunScorePlugins (framework_methods f) = RunScorePlugins f"
  "fi_RunReservePluginsReserve (framework_methods f) = RunReservePluginsReserve f"
  "fi_RunReservePluginsUnreserve (framework_methods f) = RunReservePluginsUnreserve f"
  by (simp_all add: framework_methods_def)

locale framework_client =
  fixes F :: "('q, 's) Framework"
  assumes queues_ordered: "\<exists>lt. fi_MultiQueueSortFunc F = Ok lt \<and> strict_weak_order lt"
    and units_ordered: "fi_QueueSortFuncMap F n = Some lt \<Longrightarrow> strict_weak_order lt"
    and filter_returns: "unit_ok u \<Longrightarrow> \<exists>s' c m. fi_RunFilterPlugins F s u = Ok (s', NewStatus c m)"
    and reserve_returns: "unit_ok u \<Longrightarrow> \<exists>s' c m. fi_RunReservePluginsReserve F s u = Ok (s', NewStatus c m)"
    and unreserve_returns: "unit_ok u \<Longrightarrow> \<exists>s'. fi_RunReservePluginsUnreserve F s u = Ok s'"

lemma filter_loop_status: "\<exists>c m. filter_loop Q rq ns bn hard res ks = NewStatus c m"
  by (induction ks) (auto simp: Let_def split: option.splits)

lemma Filter_returns:
  assumes "unit_ok u"
  shows "\<exists>c m. Filter Q ord rq u = Ok (NewStatus c m)"
  using assms filter_loop_status [of Q rq]
  by (auto simp: Filter_def unit_ok_def consumer_namespace_def Let_def split: sum.splits option.splits)

interpretation in_tree: framework_client "framework_methods (in_tree_framework Q ord handle)" for Q ord handle
proof (rule framework_client.intro; (unfold framework_methods_simps)?)
  show "\<exists>lt. MultiQueueSortFunc (in_tree_framework Q ord handle) = Ok lt \<and> strict_weak_order lt"
    using queue_order.strict_weak_order_axioms by simp
next
  fix n lt assume "QueueSortFuncMap (in_tree_framework Q ord handle) n = Some lt"
  then show "strict_weak_order lt" using unit_order.strict_weak_order_axioms by (auto split: if_splits)
next
  fix u :: "'a QueueUnitInfo" and s
  assume "unit_ok u"
  from Filter_returns [OF this, of Q ord s] obtain c m where "Filter Q ord s u = Ok (NewStatus c m)" by blast
  then show "\<exists>s' c m. RunFilterPlugins (in_tree_framework Q ord handle) s u = Ok (s', NewStatus c m)"
    by (cases "c = Success") auto
  show "\<exists>s' c m. RunReservePluginsReserve (in_tree_framework Q ord handle) s u = Ok (s', NewStatus c m)"
    by (cases "quRecord s (QueueUnitToKey u) = None") auto
  show "\<exists>s'. RunReservePluginsUnreserve (in_tree_framework Q ord handle) s u = Ok s'" by simp
qed

end
