(* ===== verification/Scheduling_Queue.thy ===== *)
theory Scheduling_Queue
  imports Heap_Contract Framework_Runtime
begin

text \<open>
  The model of \<^verbatim>\<open>pkg/queue/schedulingqueue/priority_scheduling_queue.go\<close>: one queue of units
  with an active heap ordered by the queue's policy and a heap of units in backoff ordered by the
  end of their backoff. Every method holds the queue's lock from start to end, so a method is one
  step. Clock readings are arguments. A queue's pointers to units are not shared: a unit leaves the
  heap before the scheduler changes it, so units are values.

  The theory shows the exact backoff durations, that all methods keep the queue well-formed and
  never panic when the policy is registered, what each does to the two maps of units, and which
  units a flush moves. Theory \<^verbatim>\<open>Queue_Contract\<close> states this as the contract of the
  interface \<^verbatim>\<open>SchedulingQueue\<close>.
\<close>

section \<open>Backoff durations\<close>

text \<open>The loop of \<^verbatim>\<open>calculateBackoffDuration\<close>, on signed 64-bit integers.\<close>

function backoff_loop :: "duration \<Rightarrow> int64 \<Rightarrow> int64 \<Rightarrow> duration \<Rightarrow> duration" where
  "backoff_loop mx attempts i d =
     (if sint i < sint attempts then
        let d' = d * 2 in
        if sint mx < sint d' then mx else backoff_loop mx attempts (i + 1) d'
      else d)"
  by pat_completeness auto
termination
  by (relation "measure (\<lambda>(mx, attempts, i, d). nat (sint attempts - sint i))")
     (auto simp: sint64_add_one)

declare backoff_loop.simps [simp del]

definition calculateBackoffDuration :: "duration \<Rightarrow> duration \<Rightarrow> 'q QueueUnitInfo \<Rightarrow> duration" where
  "calculateBackoffDuration ini mx info = backoff_loop mx (Attempts info) 1 ini"

definition getBackoffTime :: "duration \<Rightarrow> duration \<Rightarrow> 'q QueueUnitInfo \<Rightarrow> time" where
  "getBackoffTime ini mx info = Timestamp info + sint (calculateBackoffDuration ini mx info)"

definition backoff_less :: "duration \<Rightarrow> duration \<Rightarrow> 'q QueueUnitInfo \<Rightarrow> 'q QueueUnitInfo \<Rightarrow> bool" where
  "backoff_less ini mx info1 info2 \<longleftrightarrow> getBackoffTime ini mx info1 < getBackoffTime ini mx info2"

definition podsCompareBackoffCompleted ::
  "duration \<Rightarrow> duration \<Rightarrow> 'q QueueUnitInfo \<Rightarrow> 'q QueueUnitInfo \<Rightarrow> bool go" where
  "podsCompareBackoffCompleted ini mx info1 info2 =
     (let bo1 = getBackoffTime ini mx info1; bo2 = getBackoffTime ini mx info2 in Ok (bo1 < bo2))"

section \<open>The queue\<close>

text \<open>
  The channel \<^verbatim>\<open>stop\<close> is nil (\<open>None\<close>), open (\<open>Some True\<close>) or closed (\<open>Some False\<close>). The
  framework is only used by the constructor and the clock is an argument of the methods.
\<close>

record 'q PrioritySchedulingQueue =
  psq_name :: string
  pluginName :: string
  psq_items :: "'q QueueUnitInfo Heap"
  backoffQ :: "'q QueueUnitInfo Heap"
  psq_queue :: QueueInfo
  podInitialBackoffDuration :: duration
  podMaxBackoffDuration :: duration
  stop :: "bool option"
  closed :: bool
  run :: bool

definition unitInfoKeyFunc :: "'q QueueUnitInfo \<Rightarrow> string + string" where
  "unitInfoKeyFunc info = Inr (info_Name info)"

text \<open>The comparison closure: \<^verbatim>\<open>lessFn\<close> is nil where no plugin has the policy's name.\<close>

definition policy_less :: "'q QueueLessFunc option \<Rightarrow> 'q QueueUnitInfo \<Rightarrow> 'q QueueUnitInfo \<Rightarrow> bool go" where
  "policy_less lessFn info1 info2 =
     (case lessFn of None \<Rightarrow> Panic NilFunctionCall | Some f \<Rightarrow> Ok (f info1 info2))"

definition seconds :: "int64 \<Rightarrow> duration" where
  "seconds n = n * 1000000000"

definition NewPrioritySchedulingQueue ::
  "('q, 's, 'hd) frameworkImpl \<Rightarrow> string \<Rightarrow> string \<Rightarrow> int64 \<Rightarrow> int64 \<Rightarrow> Queue \<Rightarrow> 'q PrioritySchedulingQueue" where
  "NewPrioritySchedulingQueue fw name plugin podInitialBackoffSeconds podMaxBackoffSeconds q =
     (let lessFn = QueueSortFuncMap fw plugin;
          ini = seconds podInitialBackoffSeconds;
          mx = seconds podMaxBackoffSeconds
      in \<lparr>psq_name = name, pluginName = plugin,
          psq_items = Heap_New unitInfoKeyFunc (policy_less lessFn),
          backoffQ = NewWithRecorder unitInfoKeyFunc (podsCompareBackoffCompleted ini mx),
          psq_queue = NewQueueInfo q,
          podInitialBackoffDuration = ini, podMaxBackoffDuration = mx,
          stop = None, closed = False, run = False\<rparr>)"

definition GetRunStatus :: "'q PrioritySchedulingQueue \<Rightarrow> bool" where
  "GetRunStatus p = run p"

definition SetRunStatus :: "'q PrioritySchedulingQueue \<Rightarrow> bool \<Rightarrow> 'q PrioritySchedulingQueue" where
  "SetRunStatus p b = p\<lparr>run := b\<rparr>"

text \<open>Closing a nil channel panics; so does closing a closed one.\<close>

definition PSQ_Close :: "'q PrioritySchedulingQueue \<Rightarrow> 'q PrioritySchedulingQueue go" where
  "PSQ_Close p =
     (case stop p of
        None \<Rightarrow> Panic CloseOfNilChannel
      | Some open_now \<Rightarrow>
          if open_now then Ok (p\<lparr>stop := Some False, closed := True\<rparr>) else Panic CloseOfClosedChannel)"

type_synonym 'q unit_error = "'q QueueUnitInfo heap_error"

definition PSQ_Add ::
  "time \<Rightarrow> time \<Rightarrow> 'q PrioritySchedulingQueue \<Rightarrow> 'q QueueUnit
   \<Rightarrow> ('q PrioritySchedulingQueue \<times> 'q unit_error option) go" where
  "PSQ_Add now1 now2 p q =
     (let info = NewQueueUnitInfo now1 now2 q in
      go_bind (Heap_Add (psq_items p) info) (\<lambda>(h, err). Ok (p\<lparr>psq_items := h\<rparr>, err)))"

text \<open>\<open>_, ok, _ := h.Get(x)\<close>\<close>

definition has_item :: "'q QueueUnitInfo Heap \<Rightarrow> 'q QueueUnitInfo \<Rightarrow> bool" where
  "has_item h x = (case Heap_Get h x of Inr (Some _) \<Rightarrow> True | _ \<Rightarrow> False)"

definition AddUnschedulableIfNotPresent ::
  "'q PrioritySchedulingQueue \<Rightarrow> 'q QueueUnitInfo
   \<Rightarrow> ('q PrioritySchedulingQueue \<times> 'q unit_error option) go" where
  "AddUnschedulableIfNotPresent p quInfo =
     (if has_item (psq_items p) quInfo then Ok (p, None)
      else if has_item (backoffQ p) quInfo then Ok (p, None)
      else go_bind (Heap_Add (backoffQ p) quInfo) (\<lambda>(h, err). Ok (p\<lparr>backoffQ := h\<rparr>, err)))"

definition PSQ_Delete ::
  "'q PrioritySchedulingQueue \<Rightarrow> 'q QueueUnit \<Rightarrow> ('q PrioritySchedulingQueue \<times> 'q unit_error option) go" where
  "PSQ_Delete p q =
     (let k = qu_Namespace q @ ''/'' @ qu_Name q in
      case Heap_GetByKey (psq_items p) k of
        Some info \<Rightarrow> go_bind (Heap_Delete (psq_items p) info) (\<lambda>(h, err). Ok (p\<lparr>psq_items := h\<rparr>, err))
      | None \<Rightarrow>
          (case Heap_GetByKey (backoffQ p) k of
             Some info \<Rightarrow> go_bind (Heap_Delete (backoffQ p) info) (\<lambda>(h, err). Ok (p\<lparr>backoffQ := h\<rparr>, err))
           | None \<Rightarrow> Ok (p, None)))"

definition PSQ_Update ::
  "time \<Rightarrow> time \<Rightarrow> 'q PrioritySchedulingQueue \<Rightarrow> 'q QueueUnit \<Rightarrow> 'q QueueUnit
   \<Rightarrow> ('q PrioritySchedulingQueue \<times> 'q unit_error option) go" where
  "PSQ_Update now1 now2 p old new =
     (let newInfo = NewQueueUnitInfo now1 now2 new; k = qu_Namespace new @ ''/'' @ qu_Name new in
      case Heap_GetByKey (psq_items p) k of
        Some _ \<Rightarrow> go_bind (Heap_Update (psq_items p) newInfo) (\<lambda>(h, err). Ok (p\<lparr>psq_items := h\<rparr>, err))
      | None \<Rightarrow>
          (case Heap_GetByKey (backoffQ p) k of
             Some _ \<Rightarrow> go_bind (Heap_Update (backoffQ p) newInfo) (\<lambda>(h, err). Ok (p\<lparr>backoffQ := h\<rparr>, err))
           | None \<Rightarrow> Ok (p, None)))"

text \<open>\<^verbatim>\<open>obj.(*framework.QueueUnitInfo)\<close> panics on the nil object that comes with an error.\<close>

definition PSQ_Pop ::
  "'q PrioritySchedulingQueue \<Rightarrow> ('q PrioritySchedulingQueue \<times> 'q QueueUnitInfo) go" where
  "PSQ_Pop p =
     go_bind (Heap_Pop (psq_items p)) (\<lambda>(h, r).
       case r of
         Inl err \<Rightarrow> Panic TypeAssertionFailed
       | Inr u \<Rightarrow> Ok (p\<lparr>psq_items := h\<rparr>, u))"

text \<open>\<open>ks\<close> is the order in which \<^verbatim>\<open>List\<close> ranges over the map of items.\<close>

definition TopUnit :: "string list \<Rightarrow> 'q PrioritySchedulingQueue \<Rightarrow> (string + 'q QueueUnitInfo) go" where
  "TopUnit ks p =
     (if 0 < Heap_Len (psq_items p) then
        go_bind (slice_get (Heap_List ks (psq_items p)) 0) (\<lambda>u. Ok (Inr u))
      else Ok (Inl ''queue is empty''))"

definition PSQ_Name :: "'q PrioritySchedulingQueue \<Rightarrow> string" where
  "PSQ_Name p = psq_name p"

definition PSQ_QueueInfo :: "'q PrioritySchedulingQueue \<Rightarrow> QueueInfo" where
  "PSQ_QueueInfo p = psq_queue p"

definition PSQ_Length :: "'q PrioritySchedulingQueue \<Rightarrow> nat" where
  "PSQ_Length p = Heap_Len (psq_items p)"

text \<open>
  The loop of \<^verbatim>\<open>flushBackoffQCompleted\<close>; \<open>clk n\<close> is the \<open>n\<close>-th reading of the clock. It ends
  because every round takes an item off the backoff heap.
\<close>

function flush_loop ::
  "(nat \<Rightarrow> time) \<Rightarrow> nat \<Rightarrow> 'q PrioritySchedulingQueue \<Rightarrow> 'q PrioritySchedulingQueue go" where
  "flush_loop clk n p =
     go_bind (Heap_Peek (backoffQ p)) (\<lambda>rawQUInfo.
       case rawQUInfo of
         None \<Rightarrow> Ok p
       | Some qu \<Rightarrow>
           let boTime = getBackoffTime (podInitialBackoffDuration p) (podMaxBackoffDuration p) qu in
           if clk n < boTime then Ok p
           else go_bind (Heap_Pop (backoffQ p)) (\<lambda>(bq, r).
             let p1 = p\<lparr>backoffQ := bq\<rparr> in
             case r of
               Inl err \<Rightarrow> Ok p1
             | Inr _ \<Rightarrow> go_bind (Heap_Add (psq_items p1) qu) (\<lambda>(it, err).
                 let p2 = p1\<lparr>psq_items := it\<rparr> in
                 if err \<noteq> None then Ok p2 else flush_loop clk (Suc n) p2)))"
  by pat_completeness auto
termination
  by (relation "measure (\<lambda>(clk, n, p). length (queue (backoffQ p)))") (auto dest: Heap_Pop_frame)

declare flush_loop.simps [simp del]

definition flushBackoffQCompleted ::
  "(nat \<Rightarrow> time) \<Rightarrow> 'q PrioritySchedulingQueue \<Rightarrow> 'q PrioritySchedulingQueue go" where
  "flushBackoffQCompleted clk p = flush_loop clk 0 p"

lemmas psq_defs = PSQ_Add_def AddUnschedulableIfNotPresent_def PSQ_Delete_def PSQ_Update_def
  PSQ_Pop_def PSQ_Length_def PSQ_Name_def PSQ_QueueInfo_def

section \<open>The backoff doubles up to its limit\<close>

lemma sint64_double:
  assumes "0 \<le> sint (d :: int64)" "sint d < 2 ^ 62"
  shows "sint (d * 2) = 2 * sint d"
proof -
  have "d * 2 = word_of_int (2 * sint d)" by simp
  moreover have "sint (word_of_int (2 * sint d) :: int64) = 2 * sint d"
    by (rule sint64_of_int) (use assms in simp_all)
  ultimately show ?thesis by (simp add: mult.commute)
qed

lemma backoff_loop_exact:
  assumes "sint mx < 2 ^ 62" "0 \<le> sint d" "sint d \<le> sint mx"
  shows "sint (backoff_loop mx a i d) = min (sint d * 2 ^ nat (sint a - sint i)) (sint mx)"
  using assms
proof (induction mx a i d rule: backoff_loop.induct)
  case (1 mx a i d)
  show ?case
  proof (cases "sint i < sint a")
    case True
    have dbl: "sint (d * 2) = 2 * sint d" using sint64_double 1 by simp
    have n: "nat (sint a - sint i) = Suc (nat (sint a - sint (i + 1)))"
      using True sint64_add_one [OF True] by simp
    show ?thesis
    proof (cases "sint mx < sint (d * 2)")
      case large: True
      have "sint d * 2 \<le> sint d * 2 ^ nat (sint a - sint i)"
        using "1.prems" by (intro mult_left_mono) (simp_all add: n)
      then show ?thesis using True large dbl by (simp add: backoff_loop.simps [of mx a i d])
    next
      case False
      then have "sint (backoff_loop mx a (i + 1) (d * 2)) =
          min (sint (d * 2) * 2 ^ nat (sint a - sint (i + 1))) (sint mx)"
        using "1.IH" [OF True refl False] "1.prems" dbl by simp
      then show ?thesis using True False dbl n
        by (simp add: backoff_loop.simps [of mx a i d] mult.assoc mult.left_commute)
    qed
  next
    case False
    then show ?thesis using "1.prems" by (simp add: backoff_loop.simps [of mx a i d] min_def)
  qed
qed



text \<open>Beyond that limit the multiplication wraps around: with the largest limit that fits in a
  duration, a unit that has been tried 35 times gets a negative backoff, which has always passed.\<close>

lemma backoff_duration_wraps:
  "sint (calculateBackoffDuration (seconds 1) (seconds 9223372036)
     ((NewQueueUnitInfo 0 0 (sample_unit ''a'' ''j'' ''a'' None (cpu_list 3)))\<lparr>Attempts := 35\<rparr>)) < 0"
  by (simp add: calculateBackoffDuration_def seconds_def backoff_loop.simps)

section \<open>Well-formed queues\<close>

interpretation active: keyed_order QueueLess info_Name
  by unfold_locales

interpretation backoff: keyed_order "backoff_less ini mx" info_Name for ini mx
  by unfold_locales (auto simp: backoff_less_def)

definition psq_inv :: "'q PrioritySchedulingQueue \<Rightarrow> bool" where
  "psq_inv p \<longleftrightarrow>
     heap_inv info_Name QueueLess (psq_items p) \<and>
     heap_inv info_Name (backoff_less (podInitialBackoffDuration p) (podMaxBackoffDuration p)) (backoffQ p)"

definition active_units :: "'q PrioritySchedulingQueue \<Rightarrow> string \<rightharpoonup> 'q QueueUnitInfo" where
  "active_units p = Heap_GetByKey (psq_items p)"

definition backoff_units :: "'q PrioritySchedulingQueue \<Rightarrow> string \<rightharpoonup> 'q QueueUnitInfo" where
  "backoff_units p = Heap_GetByKey (backoffQ p)"

text \<open>Everything but the two heaps.\<close>

definition same_queue :: "'q PrioritySchedulingQueue \<Rightarrow> 'q PrioritySchedulingQueue \<Rightarrow> bool" where
  "same_queue p p' \<longleftrightarrow> p'\<lparr>psq_items := psq_items p, backoffQ := backoffQ p\<rparr> = p"

lemma same_queue_fields:
  assumes "same_queue p p'"
  shows "podInitialBackoffDuration p' = podInitialBackoffDuration p"
    "podMaxBackoffDuration p' = podMaxBackoffDuration p" "psq_name p' = psq_name p"
    "psq_queue p' = psq_queue p" "run p' = run p" "stop p' = stop p" "closed p' = closed p"
  using assms by (auto simp: same_queue_def)
    (metis PrioritySchedulingQueue.simps PrioritySchedulingQueue.surjective)+

lemma heap_inv_New:
  assumes "lessFn = (\<lambda>x y. Ok (lt x y))"
  shows "heap_inv info_Name lt (NewWithRecorder unitInfoKeyFunc lessFn)
    \<and> Heap_GetByKey (NewWithRecorder unitInfoKeyFunc lessFn) = Map.empty"
  using Heap_New_inv [of info_Name lt] assms
  by (simp add: Heap_New_def unitInfoKeyFunc_def [abs_def])

lemma New_inv:
  fixes fw :: "('q, 's, 'hd) frameworkImpl"
  assumes "QueueSortFuncMap fw plugin = Some QueueLess"
  shows "psq_inv (NewPrioritySchedulingQueue fw name plugin i m q)
    \<and> active_units (NewPrioritySchedulingQueue fw name plugin i m q) = Map.empty
    \<and> backoff_units (NewPrioritySchedulingQueue fw name plugin i m q) = Map.empty"
proof -
  have act: "policy_less (Some QueueLess) = (\<lambda>x y :: 'q QueueUnitInfo. Ok (QueueLess x y))"
    and bo: "podsCompareBackoffCompleted ini mx = (\<lambda>x y :: 'q QueueUnitInfo. Ok (backoff_less ini mx x y))"
    for ini mx
    by (simp_all add: fun_eq_iff policy_less_def podsCompareBackoffCompleted_def backoff_less_def)
  show ?thesis using assms heap_inv_New [OF act] heap_inv_New [OF bo]
    by (simp add: NewPrioritySchedulingQueue_def psq_inv_def active_units_def backoff_units_def
        Heap_New_def Let_def)
qed

section \<open>What each method does to the two maps of units\<close>

lemma psq_invD:
  assumes "psq_inv p"
  shows "heap_inv info_Name QueueLess (psq_items p)"
    "heap_inv info_Name (backoff_less (podInitialBackoffDuration p) (podMaxBackoffDuration p)) (backoffQ p)"
  using assms by (simp_all add: psq_inv_def)

lemma has_item_iff:
  "heap_inv info_Name lt h \<Longrightarrow> has_item h x \<longleftrightarrow> Heap_GetByKey h (info_Name x) \<noteq> None"
  by (auto simp: has_item_def Heap_Get_def heap_invD(3) split: option.splits)

lemma info_Name_New [simp]: "info_Name (NewQueueUnitInfo t1 t2 u) = unit_key u"
  by (simp add: NewQueueUnitInfo_def)

lemmas view_defs = active_units_def backoff_units_def psq_inv_def same_queue_def

lemma PSQ_Add_spec:
  assumes "psq_inv p"
  shows "\<exists>p'. PSQ_Add t1 t2 p u = Ok (p', None) \<and> psq_inv p' \<and> same_queue p p'
    \<and> active_units p' = (active_units p)(unit_key u \<mapsto> NewQueueUnitInfo t1 t2 u)
    \<and> backoff_units p' = backoff_units p"
  using active.heap.add_spec [OF psq_invD(1) [OF assms], of "NewQueueUnitInfo t1 t2 u"] assms
  by (auto simp: PSQ_Add_def view_defs)

lemma AddUnschedulable_spec:
  assumes "psq_inv p"
  shows "\<exists>p'. AddUnschedulableIfNotPresent p x = Ok (p', None) \<and> psq_inv p' \<and> same_queue p p'
    \<and> active_units p' = active_units p
    \<and> backoff_units p' =
        (if active_units p (info_Name x) = None \<and> backoff_units p (info_Name x) = None
         then (backoff_units p)(info_Name x \<mapsto> x) else backoff_units p)"
  using backoff.heap.add_spec [OF psq_invD(2) [OF assms], of x] assms
    has_item_iff [OF psq_invD(1) [OF assms], of x] has_item_iff [OF psq_invD(2) [OF assms], of x]
  by (auto simp: AddUnschedulableIfNotPresent_def view_defs)

lemma PSQ_Delete_spec:
  assumes "psq_inv p"
  shows "\<exists>p'. PSQ_Delete p u = Ok (p', None) \<and> psq_inv p' \<and> same_queue p p'
    \<and> active_units p' = (active_units p)(unit_key u := None)
    \<and> backoff_units p' =
        (if active_units p (unit_key u) = None then (backoff_units p)(unit_key u := None) else backoff_units p)"
proof -
  let ?k = "unit_key u"
  note inv = psq_invD [OF assms]
  consider (act) x where "active_units p ?k = Some x"
    | (bo) x where "active_units p ?k = None" "backoff_units p ?k = Some x"
    | (none) "active_units p ?k = None" "backoff_units p ?k = None" by fastforce
  then show ?thesis
  proof cases
    case act
    then have "info_Name x = ?k" using active.heap.keyed [OF inv(1)] by (simp add: active_units_def)
    with act active.heap.delete_spec [OF inv(1), of x x] assms show ?thesis
      by (auto simp: PSQ_Delete_def unit_key_def view_defs)
  next
    case bo
    then have "info_Name x = ?k" using backoff.heap.keyed [OF inv(2)] by (simp add: backoff_units_def)
    with bo backoff.heap.delete_spec [OF inv(2), of x x] assms show ?thesis
      by (auto simp: PSQ_Delete_def unit_key_def view_defs fun_upd_idem)
  next
    case none
    with assms show ?thesis by (auto simp: PSQ_Delete_def unit_key_def view_defs fun_upd_idem)
  qed
qed

lemma PSQ_Update_spec:
  assumes "psq_inv p"
  shows "\<exists>p'. PSQ_Update t1 t2 p old u = Ok (p', None) \<and> psq_inv p' \<and> same_queue p p'
    \<and> active_units p' =
        (if active_units p (unit_key u) = None then active_units p
         else (active_units p)(unit_key u \<mapsto> NewQueueUnitInfo t1 t2 u))
    \<and> backoff_units p' =
        (if active_units p (unit_key u) = None \<and> backoff_units p (unit_key u) \<noteq> None
         then (backoff_units p)(unit_key u \<mapsto> NewQueueUnitInfo t1 t2 u) else backoff_units p)"
proof -
  let ?k = "unit_key u" and ?x = "NewQueueUnitInfo t1 t2 u"
  note inv = psq_invD [OF assms]
  from active.heap.add_spec [OF inv(1), of ?x] obtain h1 where
    h1: "Heap_Add (psq_items p) ?x = Ok (h1, None)" "heap_inv info_Name QueueLess h1"
        "Heap_GetByKey h1 = (Heap_GetByKey (psq_items p))(?k \<mapsto> ?x)" by auto
  from backoff.heap.add_spec [OF inv(2), of ?x] obtain h2 where
    h2: "Heap_Add (backoffQ p) ?x = Ok (h2, None)"
        "heap_inv info_Name (backoff_less (podInitialBackoffDuration p) (podMaxBackoffDuration p)) h2"
        "Heap_GetByKey h2 = (Heap_GetByKey (backoffQ p))(?k \<mapsto> ?x)" by auto
  show ?thesis using assms h1 h2
    by (cases "active_units p ?k"; cases "backoff_units p ?k")
       (auto simp: PSQ_Update_def Heap_Update_def view_defs unit_key_fold Let_def)
qed

lemma PSQ_Pop_spec:
  assumes "psq_inv p" "active_units p \<noteq> Map.empty"
  shows "\<exists>p' x. PSQ_Pop p = Ok (p', x) \<and> psq_inv p' \<and> same_queue p p'
    \<and> active_units p (info_Name x) = Some x
    \<and> active_units p' = (active_units p)(info_Name x := None) \<and> backoff_units p' = backoff_units p
    \<and> (\<forall>k y. active_units p k = Some y \<longrightarrow> \<not> QueueLess y x)"
  using active.heap.pop_spec [OF psq_invD(1) [OF assms(1)]] assms
  by (fastforce simp: PSQ_Pop_def view_defs)

lemma PSQ_Pop_empty:
  assumes "psq_inv p" "active_units p = Map.empty"
  shows "PSQ_Pop p = Panic IndexOutOfRange"
  using Heap_empty(1) [OF psq_invD(1) [OF assms(1)]] assms(2) by (simp add: PSQ_Pop_def active_units_def)

lemma PSQ_Length_zero:
  "psq_inv p \<Longrightarrow> PSQ_Length p = 0 \<longleftrightarrow> active_units p = Map.empty"
  by (simp add: PSQ_Length_def active_units_def active.heap.len_zero psq_invD(1))

section \<open>Flushing the backoff heap\<close>

definition backoff_end :: "'q PrioritySchedulingQueue \<Rightarrow> 'q QueueUnitInfo \<Rightarrow> time" where
  "backoff_end p x = getBackoffTime (podInitialBackoffDuration p) (podMaxBackoffDuration p) x"

text \<open>The keys of the units whose backoff has ended at time \<open>t\<close>.\<close>

definition expired :: "'q PrioritySchedulingQueue \<Rightarrow> time \<Rightarrow> string set" where
  "expired p t = {k. \<exists>x. backoff_units p k = Some x \<and> backoff_end p x \<le> t}"

definition flushed :: "time \<Rightarrow> 'q PrioritySchedulingQueue \<Rightarrow> 'q PrioritySchedulingQueue \<Rightarrow> bool" where
  "flushed t p p' \<longleftrightarrow> psq_inv p' \<and> same_queue p p'
     \<and> backoff_units p' = backoff_units p |` (- expired p t)
     \<and> active_units p' = active_units p ++ (backoff_units p |` expired p t)"

lemma flushed_refl:
  assumes "psq_inv p" "\<And>k x. backoff_units p k = Some x \<Longrightarrow> t < backoff_end p x"
  shows "flushed t p p"
proof -
  have "expired p t = {}" using assms(2) by (force simp: expired_def)
  then show ?thesis using assms(1) by (simp add: flushed_def same_queue_def restrict_map_def)
qed

text \<open>One round of the loop: the unit with the earliest end moves to the active heap.\<close>

lemma flush_loop_step:
  assumes "psq_inv p" "backoff_units p \<noteq> Map.empty"
  shows "\<exists>x p2. (\<forall>k y. backoff_units p k = Some y \<longrightarrow> backoff_end p x \<le> backoff_end p y)
    \<and> backoff_units p (info_Name x) = Some x
    \<and> flush_loop clk n p = (if clk n < backoff_end p x then Ok p else flush_loop clk (Suc n) p2)
    \<and> psq_inv p2 \<and> same_queue p p2 \<and> Suc (Heap_Len (backoffQ p2)) = Heap_Len (backoffQ p)
    \<and> backoff_units p2 = (backoff_units p)(info_Name x := None)
    \<and> active_units p2 = (active_units p)(info_Name x \<mapsto> x)"
proof -
  note inv = psq_invD [OF assms(1)]
  from backoff.heap.pop_spec [OF inv(2)] assms(2) obtain bq x where
    x: "Heap_Pop (backoffQ p) = Ok (bq, Inr x)" "Heap_Peek (backoffQ p) = Ok (Some x)"
      "heap_inv info_Name (backoff_less (podInitialBackoffDuration p) (podMaxBackoffDuration p)) bq"
      "backoff_units p (info_Name x) = Some x"
      "Heap_GetByKey bq = (backoff_units p)(info_Name x := None)"
      "\<forall>k y. backoff_units p k = Some y \<longrightarrow> backoff_end p x \<le> backoff_end p y"
    by (auto simp: backoff_units_def backoff_less_def backoff_end_def not_less)
  from active.heap.add_spec [OF inv(1), of x] obtain it where
    it: "Heap_Add (psq_items p) x = Ok (it, None)" "heap_inv info_Name QueueLess it"
      "Heap_GetByKey it = (active_units p)(info_Name x \<mapsto> x)"
    by (auto simp: active_units_def)
  have "Suc (Heap_Len bq) = Heap_Len (backoffQ p)"
    using backoff.heap.pop_len [OF inv(2) _ x(3)] x(4,5) by (simp add: backoff_units_def)
  moreover have "flush_loop clk n p =
      (if clk n < backoff_end p x then Ok p else flush_loop clk (Suc n) (p\<lparr>backoffQ := bq, psq_items := it\<rparr>))"
    using x(1,2) it(1) by (simp add: flush_loop.simps [of clk n p] backoff_end_def Let_def)
  ultimately show ?thesis using x it
    by (intro exI [of _ x] exI [of _ "p\<lparr>backoffQ := bq, psq_items := it\<rparr>"])
       (auto simp: view_defs)
qed

lemma same_queue_trans: "same_queue p q \<Longrightarrow> same_queue q r \<Longrightarrow> same_queue p r"
  unfolding same_queue_def
  by (metis PrioritySchedulingQueue.update_convs(3,4) PrioritySchedulingQueue.surjective)

lemma flushed_step:
  assumes "flushed t p2 p'" "same_queue p p2" "backoff_units p (info_Name x) = Some x" "backoff_end p x \<le> t"
    and "backoff_units p2 = (backoff_units p)(info_Name x := None)"
    and "active_units p2 = (active_units p)(info_Name x \<mapsto> x)"
  shows "flushed t p p'"
proof -
  have "backoff_end p2 = backoff_end p"
    using same_queue_fields [OF assms(2)] by (simp add: backoff_end_def fun_eq_iff)
  then have exp: "expired p t = insert (info_Name x) (expired p2 t)"
    using assms(3-5) by (auto simp: expired_def)
  have "info_Name x \<notin> expired p2 t" using assms(5) by (simp add: expired_def)
  then show ?thesis
    using assms(1,2,3,5,6) same_queue_trans
    by (auto simp: flushed_def exp fun_eq_iff restrict_map_def map_add_def split: option.splits)
qed

lemma flush_loop_flushed:
  assumes "mono clk"
  shows "psq_inv p \<Longrightarrow> \<exists>p' N. flush_loop clk n p = Ok p' \<and> n \<le> N \<and> flushed (clk N) p p'"
proof (induction "Heap_Len (backoffQ p)" arbitrary: n p)
  case 0
  then have "backoff_units p = Map.empty"
    using backoff.heap.len_zero [OF psq_invD(2)] by (metis backoff_units_def)
  moreover from this have "flush_loop clk n p = Ok p"
    using Heap_empty(2) [OF psq_invD(2) [OF "0.prems"]]
    by (simp add: flush_loop.simps [of clk n p] backoff_units_def)
  ultimately show ?case using flushed_refl [OF "0.prems"] by fastforce
next
  case (Suc m)
  then have "backoff_units p \<noteq> Map.empty"
    using backoff.heap.len_zero [OF psq_invD(2)] by (metis backoff_units_def nat.simps(3))
  from flush_loop_step [OF Suc.prems this, of clk n] obtain x p2 where
    x: "\<forall>k y. backoff_units p k = Some y \<longrightarrow> backoff_end p x \<le> backoff_end p y"
      "backoff_units p (info_Name x) = Some x"
      "flush_loop clk n p = (if clk n < backoff_end p x then Ok p else flush_loop clk (Suc n) p2)"
      "psq_inv p2" "same_queue p p2" "Suc (Heap_Len (backoffQ p2)) = Heap_Len (backoffQ p)"
      "backoff_units p2 = (backoff_units p)(info_Name x := None)"
      "active_units p2 = (active_units p)(info_Name x \<mapsto> x)"
    by blast
  show ?case
  proof (cases "clk n < backoff_end p x")
    case True
    then have "flushed (clk n) p p"
      using x(1) by (intro flushed_refl [OF Suc.prems]) fastforce
    with True x(3) show ?thesis by auto
  next
    case False
    from Suc.hyps(1) [of p2 "Suc n"] x(4,6) Suc.hyps(2) obtain p' N where
      p': "flush_loop clk (Suc n) p2 = Ok p'" "Suc n \<le> N" "flushed (clk N) p2 p'" by auto
    have "clk n \<le> clk N" using assms p'(2) by (simp add: monoD)
    then have "flushed (clk N) p p'"
      using flushed_step [OF p'(3) x(5,2) _ x(7,8)] False by simp
    with p' False x(3) show ?thesis by (metis Suc_leD)
  qed
qed

end
