(* ===== verification/Queue_Contract.thy ===== *)
theory Queue_Contract
  imports Scheduling_Queue
begin

text \<open>
  The interface \<^verbatim>\<open>SchedulingQueue\<close> of \<^verbatim>\<open>pkg/queue/interface.go\<close> as a record of methods, and
  its contract as locale \<open>scheduling_queue\<close>: what the methods that the scheduler, the controller and
  the collection of queues call do to the units that are ready (\<open>active\<close>) and in backoff
  (\<open>waiting\<close>). Its lemmas are what the clients rely on: a pop guarded by the length returns, taking a
  unit and giving it back conserves the units, no key is in both places unless a unit is added while
  it waits. The locale is interpreted on the methods of \<^verbatim>\<open>PrioritySchedulingQueue\<close>.
\<close>

section \<open>The interface\<close>

text \<open>
  A method of an object in state \<open>'p\<close> returns its new state. \<open>sq_Run\<close> is what the goroutine that
  \<^verbatim>\<open>Run\<close> starts does each time it wakes up; that it is started is recorded in the store of queues
  (theory \<^verbatim>\<open>Multi_Queue\<close>).
\<close>

record ('p, 'q, 'e) SchedulingQueue =
  sq_Add :: "time \<Rightarrow> time \<Rightarrow> 'p \<Rightarrow> 'q QueueUnit \<Rightarrow> ('p \<times> 'e option) go"
  sq_AddUnschedulableIfNotPresent :: "'p \<Rightarrow> 'q QueueUnitInfo \<Rightarrow> ('p \<times> 'e option) go"
  sq_Delete :: "'p \<Rightarrow> 'q QueueUnit \<Rightarrow> ('p \<times> 'e option) go"
  sq_Update :: "time \<Rightarrow> time \<Rightarrow> 'p \<Rightarrow> 'q QueueUnit \<Rightarrow> 'q QueueUnit \<Rightarrow> ('p \<times> 'e option) go"
  sq_Pop :: "'p \<Rightarrow> ('p \<times> 'q QueueUnitInfo) go"
  sq_Name :: "'p \<Rightarrow> string"
  sq_QueueInfo :: "'p \<Rightarrow> QueueInfo"
  sq_Length :: "'p \<Rightarrow> nat"
  sq_Run :: "(nat \<Rightarrow> time) \<Rightarrow> 'p \<Rightarrow> 'p go"
  sq_GetRunStatus :: "'p \<Rightarrow> bool"
  sq_SetRunStatus :: "'p \<Rightarrow> bool \<Rightarrow> 'p"
  sq_Close :: "'p \<Rightarrow> 'p go"

text \<open>\<^verbatim>\<open>PrioritySchedulingQueue\<close> implements it.\<close>

definition PSQ_methods :: "('q PrioritySchedulingQueue, 'q, 'q unit_error) SchedulingQueue" where
  "PSQ_methods =
     \<lparr>sq_Add = PSQ_Add, sq_AddUnschedulableIfNotPresent = AddUnschedulableIfNotPresent,
      sq_Delete = PSQ_Delete, sq_Update = PSQ_Update, sq_Pop = PSQ_Pop, sq_Name = PSQ_Name,
      sq_QueueInfo = PSQ_QueueInfo, sq_Length = PSQ_Length, sq_Run = flushBackoffQCompleted,
      sq_GetRunStatus = GetRunStatus, sq_SetRunStatus = SetRunStatus, sq_Close = PSQ_Close\<rparr>"

lemma PSQ_methods_simps [simp]:
  "sq_Add PSQ_methods = PSQ_Add" "sq_AddUnschedulableIfNotPresent PSQ_methods = AddUnschedulableIfNotPresent"
  "sq_Delete PSQ_methods = PSQ_Delete" "sq_Update PSQ_methods = PSQ_Update" "sq_Pop PSQ_methods = PSQ_Pop"
  "sq_Name PSQ_methods = PSQ_Name" "sq_QueueInfo PSQ_methods = PSQ_QueueInfo" "sq_Length PSQ_methods = PSQ_Length"
  "sq_Run PSQ_methods = flushBackoffQCompleted" "sq_GetRunStatus PSQ_methods = GetRunStatus"
  "sq_SetRunStatus PSQ_methods = SetRunStatus" "sq_Close PSQ_methods = PSQ_Close"
  by (simp_all add: PSQ_methods_def)

section \<open>The contract\<close>

locale scheduling_queue =
  fixes inv :: "'p \<Rightarrow> bool"
    and active :: "'p \<Rightarrow> string \<rightharpoonup> 'q QueueUnitInfo"
    and waiting :: "'p \<Rightarrow> string \<rightharpoonup> 'q QueueUnitInfo"
    and same :: "'p \<Rightarrow> 'p \<Rightarrow> bool"
    and I :: "('p, 'q, 'e) SchedulingQueue"
  assumes keyed: "inv p \<Longrightarrow> active p k = Some x \<or> waiting p k = Some x \<Longrightarrow> info_Name x = k"
    and len_zero: "inv p \<Longrightarrow> sq_Length I p = 0 \<longleftrightarrow> active p = Map.empty"
    and add_spec: "inv p \<Longrightarrow> \<exists>p'. sq_Add I t1 t2 p u = Ok (p', None) \<and> inv p' \<and> same p p'
      \<and> active p' = (active p)(unit_key u \<mapsto> NewQueueUnitInfo t1 t2 u) \<and> waiting p' = waiting p"
    and requeue_spec: "inv p \<Longrightarrow> \<exists>p'. sq_AddUnschedulableIfNotPresent I p x = Ok (p', None) \<and> inv p' \<and> same p p'
      \<and> active p' = active p
      \<and> waiting p' = (if active p (info_Name x) = None \<and> waiting p (info_Name x) = None
          then (waiting p)(info_Name x \<mapsto> x) else waiting p)"
    and delete_spec: "inv p \<Longrightarrow> \<exists>p'. sq_Delete I p u = Ok (p', None) \<and> inv p' \<and> same p p'
      \<and> active p' = (active p)(unit_key u := None)
      \<and> waiting p' = (if active p (unit_key u) = None then (waiting p)(unit_key u := None) else waiting p)"
    and update_spec: "inv p \<Longrightarrow> \<exists>p'. sq_Update I t1 t2 p old u = Ok (p', None) \<and> inv p' \<and> same p p'
      \<and> active p' = (if active p (unit_key u) = None then active p
          else (active p)(unit_key u \<mapsto> NewQueueUnitInfo t1 t2 u))
      \<and> waiting p' = (if active p (unit_key u) = None \<and> waiting p (unit_key u) \<noteq> None
          then (waiting p)(unit_key u \<mapsto> NewQueueUnitInfo t1 t2 u) else waiting p)"
    and pop_spec: "inv p \<Longrightarrow> active p \<noteq> Map.empty \<Longrightarrow> \<exists>p' x. sq_Pop I p = Ok (p', x) \<and> inv p' \<and> same p p'
      \<and> active p (info_Name x) = Some x \<and> active p' = (active p)(info_Name x := None)
      \<and> waiting p' = waiting p \<and> (\<forall>k y. active p k = Some y \<longrightarrow> \<not> QueueLess y x)"
    and pop_empty: "inv p \<Longrightarrow> active p = Map.empty \<Longrightarrow> panics (sq_Pop I p)"
    and run_spec: "inv p \<Longrightarrow> \<exists>p'. sq_Run I clk p = Ok p' \<and> inv p' \<and> same p p'
      \<and> dom (active p') \<union> dom (waiting p') = dom (active p) \<union> dom (waiting p)
      \<and> (\<forall>k x. active p' k = Some x \<or> waiting p' k = Some x \<longrightarrow> active p k = Some x \<or> waiting p k = Some x)"
    and same_spec: "same p p' \<Longrightarrow> sq_Name I p' = sq_Name I p \<and> sq_QueueInfo I p' = sq_QueueInfo I p
      \<and> sq_GetRunStatus I p' = sq_GetRunStatus I p"
    and status_spec: "inv p \<Longrightarrow> inv (sq_SetRunStatus I p b) \<and> sq_GetRunStatus I (sq_SetRunStatus I p b) = b
      \<and> active (sq_SetRunStatus I p b) = active p \<and> waiting (sq_SetRunStatus I p b) = waiting p
      \<and> sq_Name I (sq_SetRunStatus I p b) = sq_Name I p \<and> sq_QueueInfo I (sq_SetRunStatus I p b) = sq_QueueInfo I p"
begin

text \<open>The keys the queue holds, ready or waiting.\<close>

definition held :: "'p \<Rightarrow> string set" where
  "held p = dom (active p) \<union> dom (waiting p)"

lemma pop_guarded:
  assumes "inv p" "0 < sq_Length I p"
  shows "\<exists>p' x. sq_Pop I p = Ok (p', x) \<and> inv p' \<and> same p p'
      \<and> active p (info_Name x) = Some x \<and> active p' = (active p)(info_Name x := None)
      \<and> waiting p' = waiting p \<and> (\<forall>k y. active p k = Some y \<longrightarrow> \<not> QueueLess y x)"
  using pop_spec [OF assms(1)] len_zero [OF assms(1)] assms(2) by auto

lemma run_held:
  assumes "inv p" "sq_Run I clk p = Ok p'"
  shows "inv p' \<and> same p p' \<and> held p' = held p"
  using run_spec [OF assms(1), of clk] assms(2) by (auto simp: held_def)

text \<open>A popped unit that goes back unchanged in name is held again, and nothing else changes.\<close>

lemma pop_requeue:
  assumes "inv p" "sq_Pop I p = Ok (p1, x)" "active p \<noteq> Map.empty" "info_Name x' = info_Name x"
  shows "\<exists>p2. sq_AddUnschedulableIfNotPresent I p1 x' = Ok (p2, None) \<and> inv p2 \<and> held p2 = held p
    \<and> active p2 = (active p)(info_Name x := None)
    \<and> (waiting p (info_Name x) = None \<longrightarrow> waiting p2 = (waiting p)(info_Name x \<mapsto> x'))"
proof -
  from pop_spec [OF assms(1,3)] assms(2) have p1: "inv p1" "active p (info_Name x) = Some x"
    "active p1 = (active p)(info_Name x := None)" "waiting p1 = waiting p" by auto
  from requeue_spec [OF p1(1), of x'] obtain p2 where
    p2: "sq_AddUnschedulableIfNotPresent I p1 x' = Ok (p2, None)" "inv p2" "active p2 = active p1"
      "waiting p2 = (if active p1 (info_Name x') = None \<and> waiting p1 (info_Name x') = None
          then (waiting p1)(info_Name x' \<mapsto> x') else waiting p1)" by blast
  have "held p2 = held p" using p1 p2(3,4) assms(4) by (auto simp: held_def split: if_splits)
  with p1 p2 assms(4) show ?thesis by auto
qed

text \<open>No key in both places: all operations keep this but \<open>add\<close> of a unit that waits.\<close>

definition single :: "'p \<Rightarrow> bool" where
  "single p \<longleftrightarrow> dom (active p) \<inter> dom (waiting p) = {}"

lemma single_add:
  assumes "inv p" "single p" "sq_Add I t1 t2 p u = Ok (p', e)"
  shows "single p' \<longleftrightarrow> waiting p (unit_key u) = None"
  using add_spec [OF assms(1), of t1 t2 u] assms(2,3) by (auto simp: single_def)

lemma single_requeue:
  assumes "inv p" "single p" "sq_AddUnschedulableIfNotPresent I p x = Ok (p', e)"
  shows "single p'"
  using requeue_spec [OF assms(1), of x] assms(2,3) by (auto simp: single_def split: if_splits)

lemma single_delete:
  assumes "inv p" "single p" "sq_Delete I p u = Ok (p', e)"
  shows "single p' \<and> unit_key u \<notin> held p'"
  using delete_spec [OF assms(1), of u] assms(2,3) by (auto simp: single_def held_def split: if_splits)

lemma single_update:
  assumes "inv p" "single p" "sq_Update I t1 t2 p old u = Ok (p', e)"
  shows "single p' \<and> held p' = held p"
  using update_spec [OF assms(1), of t1 t2 old u] assms(2,3)
  by (auto simp: single_def held_def split: if_splits)

end

section \<open>PrioritySchedulingQueue meets it\<close>

text \<open>A flush ends well-formed whatever the clock reads, and drops no unit.\<close>

lemma flush_loop_safe:
  "psq_inv p \<Longrightarrow> \<exists>p'. flush_loop clk n p = Ok p' \<and> psq_inv p' \<and> same_queue p p' \<and> dom (active_units p') \<union> dom (backoff_units p') = dom (active_units p) \<union> dom (backoff_units p)
    \<and> (\<forall>k x. active_units p' k = Some x \<or> backoff_units p' k = Some x \<longrightarrow>
         active_units p k = Some x \<or> backoff_units p k = Some x)"
proof (induction "Heap_Len (backoffQ p)" arbitrary: n p)
  case 0
  then have "backoff_units p = Map.empty"
    using backoff.heap.len_zero [OF psq_invD(2)] by (metis backoff_units_def)
  then have "flush_loop clk n p = Ok p"
    using Heap_empty(2) [OF psq_invD(2) [OF "0.prems"]]
    by (simp add: flush_loop.simps [of clk n p] backoff_units_def)
  then show ?case using "0.prems" by (simp add: same_queue_def)
next
  case (Suc m)
  then have "backoff_units p \<noteq> Map.empty"
    using backoff.heap.len_zero [OF psq_invD(2)] by (metis backoff_units_def nat.simps(3))
  from flush_loop_step [OF Suc.prems this, of clk n] obtain x p2 where
    x: "backoff_units p (info_Name x) = Some x"
      "flush_loop clk n p = (if clk n < backoff_end p x then Ok p else flush_loop clk (Suc n) p2)"
      "psq_inv p2" "same_queue p p2" "Suc (Heap_Len (backoffQ p2)) = Heap_Len (backoffQ p)"
      "backoff_units p2 = (backoff_units p)(info_Name x := None)"
      "active_units p2 = (active_units p)(info_Name x \<mapsto> x)"
    by blast
  have held: "dom (active_units p2) \<union> dom (backoff_units p2) = dom (active_units p) \<union> dom (backoff_units p)"
    using x(1,6,7) by auto
  have sub: "active_units p k = Some y \<or> backoff_units p k = Some y"
    if "active_units p2 k = Some y \<or> backoff_units p2 k = Some y" for k y
    using that x(1,6,7) by (auto split: if_splits)
  from Suc.hyps(1) [of p2 "Suc n"] x(3,5) Suc.hyps(2) obtain p' where
    p': "flush_loop clk (Suc n) p2 = Ok p'" "psq_inv p'" "same_queue p2 p'" "dom (active_units p') \<union> dom (backoff_units p') = dom (active_units p2) \<union> dom (backoff_units p2)"
      "\<forall>k y. active_units p' k = Some y \<or> backoff_units p' k = Some y \<longrightarrow>
         active_units p2 k = Some y \<or> backoff_units p2 k = Some y" by auto
  show ?case
  proof (cases "clk n < backoff_end p x")
    case True
    then show ?thesis using x(2) Suc.prems by (simp add: same_queue_def)
  next
    case False
    with x(2) p' held sub same_queue_trans [OF x(4) p'(3)] show ?thesis
      by (intro exI [of _ p']) simp
  qed
qed

interpretation psq: scheduling_queue psq_inv active_units backoff_units same_queue PSQ_methods
  rewrites "sq_Add PSQ_methods = PSQ_Add" and "sq_AddUnschedulableIfNotPresent PSQ_methods = AddUnschedulableIfNotPresent"
    and "sq_Delete PSQ_methods = PSQ_Delete" and "sq_Update PSQ_methods = PSQ_Update" and "sq_Pop PSQ_methods = PSQ_Pop"
    and "sq_Length PSQ_methods = PSQ_Length" and "sq_Run PSQ_methods = flushBackoffQCompleted"
proof -
  show "scheduling_queue psq_inv active_units backoff_units same_queue
    (PSQ_methods :: ('q PrioritySchedulingQueue, 'q, 'q unit_error) SchedulingQueue)"
  proof (unfold_locales; (unfold PSQ_methods_simps)?)
    fix p :: "'q PrioritySchedulingQueue" and x k
    assume "psq_inv p"
    note inv = psq_invD [OF this]
    show "active_units p k = Some x \<or> backoff_units p k = Some x \<Longrightarrow> info_Name x = k"
      using active.heap.keyed [OF inv(1)] backoff.heap.keyed [OF inv(2)]
      by (auto simp: active_units_def backoff_units_def)
  next
    fix p :: "'q PrioritySchedulingQueue" and clk
    assume "psq_inv p"
    from flush_loop_safe [OF this, of clk 0]
    show "\<exists>p'. flushBackoffQCompleted clk p = Ok p' \<and> psq_inv p' \<and> same_queue p p'
      \<and> dom (active_units p') \<union> dom (backoff_units p') = dom (active_units p) \<union> dom (backoff_units p)
      \<and> (\<forall>k x. active_units p' k = Some x \<or> backoff_units p' k = Some x \<longrightarrow>
           active_units p k = Some x \<or> backoff_units p k = Some x)"
      by (simp add: flushBackoffQCompleted_def)
  qed (rule PSQ_Length_zero PSQ_Add_spec AddUnschedulable_spec PSQ_Delete_spec PSQ_Update_spec
      PSQ_Pop_spec | simp add: PSQ_Pop_empty
    | simp add: same_queue_fields PSQ_Name_def PSQ_QueueInfo_def GetRunStatus_def SetRunStatus_def psq_inv_def
        active_units_def backoff_units_def)+
qed simp_all

end
