(* ===== verification/Queue_Props.thy ===== *)
theory Queue_Props
  imports Queue_Contract
begin

text \<open>
  The properties of \<^verbatim>\<open>PrioritySchedulingQueue\<close>: sequences of calls on a new queue never panic
  and keep it well-formed, which unit a pop takes and which units a flush moves, what happens to a
  unit that is given back, updated, deleted or added while it waits, and the calls that do panic.
\<close>

section \<open>Sequences of calls\<close>

text \<open>The calls of the scheduler, the controller and the flusher; pops are guarded by the length.\<close>

datatype 'q queue_op =
    QAdd time time "'q QueueUnit"
  | QRequeue "'q QueueUnitInfo"
  | QDelete "'q QueueUnit"
  | QUpdate time time "'q QueueUnit" "'q QueueUnit"
  | QPop
  | QFlush "nat \<Rightarrow> time"

primrec queue_step :: "'q PrioritySchedulingQueue \<Rightarrow> 'q queue_op \<Rightarrow> 'q PrioritySchedulingQueue go" where
  "queue_step p (QAdd t1 t2 u) = go_bind (PSQ_Add t1 t2 p u) (\<lambda>(p', _). Ok p')"
| "queue_step p (QRequeue x) = go_bind (AddUnschedulableIfNotPresent p x) (\<lambda>(p', _). Ok p')"
| "queue_step p (QDelete u) = go_bind (PSQ_Delete p u) (\<lambda>(p', _). Ok p')"
| "queue_step p (QUpdate t1 t2 old u) = go_bind (PSQ_Update t1 t2 p old u) (\<lambda>(p', _). Ok p')"
| "queue_step p QPop = (if 0 < PSQ_Length p then go_bind (PSQ_Pop p) (\<lambda>(p', _). Ok p') else Ok p)"
| "queue_step p (QFlush clk) = flushBackoffQCompleted clk p"

fun queue_run :: "'q PrioritySchedulingQueue \<Rightarrow> 'q queue_op list \<Rightarrow> 'q PrioritySchedulingQueue go" where
  "queue_run p [] = Ok p"
| "queue_run p (c # cs) = go_bind (queue_step p c) (\<lambda>p'. queue_run p' cs)"

lemma same_queue_refl [simp]: "same_queue p p"
  by (simp add: same_queue_def)

lemma queue_step_safe:
  assumes "psq_inv p"
  shows "\<exists>p'. queue_step p c = Ok p' \<and> psq_inv p' \<and> same_queue p p'"
proof (cases c)
  case (QAdd t1 t2 u)
  then show ?thesis using psq.add_spec [OF assms, of t1 t2 u] by auto
next
  case (QRequeue x)
  then show ?thesis using psq.requeue_spec [OF assms, of x] by auto
next
  case (QDelete u)
  then show ?thesis using psq.delete_spec [OF assms, of u] by auto
next
  case (QUpdate t1 t2 old u)
  then show ?thesis using psq.update_spec [OF assms, of t1 t2 old u] by auto
next
  case QPop
  then show ?thesis using psq.pop_guarded [OF assms] assms by (cases "0 < PSQ_Length p") auto
next
  case (QFlush clk)
  then show ?thesis using psq.run_spec [OF assms, of clk] by auto
qed

lemma queue_run_safe: "psq_inv p \<Longrightarrow> \<exists>p'. queue_run p cs = Ok p' \<and> psq_inv p' \<and> same_queue p p'"
proof (induction cs arbitrary: p)
  case (Cons c cs)
  from queue_step_safe [OF Cons.prems, of c] obtain p1 where
    "queue_step p c = Ok p1" "psq_inv p1" "same_queue p p1" by blast
  with Cons.IH [of p1] show ?case by (auto intro: same_queue_trans)
qed simp

section \<open>Properties\<close>

abbreviation new_queue :: "'q quantity_ops \<Rightarrow> ('q ResourceList \<Rightarrow> string list) \<Rightarrow> 'hd \<Rightarrow> int64 \<Rightarrow> int64
    \<Rightarrow> Queue \<Rightarrow> 'q PrioritySchedulingQueue" where
  "new_queue Q ord handle i m q \<equiv>
     NewPrioritySchedulingQueue (in_tree_framework Q ord handle) (q_Namespace q) (QueuePolicy q) i m q"

lemma new_queue_safe:
  assumes "QueuePolicy q = Priority_Name"
  shows "\<exists>p. queue_run (new_queue Q ord handle i m q) cs = Ok p \<and> psq_inv p
    \<and> same_queue (new_queue Q ord handle i m q) p"
  using queue_run_safe [OF conjunct1 [OF New_inv], of "in_tree_framework Q ord handle"] assms by simp



text \<open>C19. A pop takes a ready unit of the highest priority, and among those one that entered the queue
  first; the other units stay as they were.\<close>

theorem pop_takes_best:
  assumes "psq_inv p" "0 < PSQ_Length p"
  shows "\<exists>p' x. PSQ_Pop p = Ok (p', x) \<and> psq_inv p' \<and> active_units p (info_Name x) = Some x
    \<and> active_units p' = (active_units p)(info_Name x := None) \<and> backoff_units p' = backoff_units p
    \<and> (\<forall>k y. active_units p k = Some y \<longrightarrow> unit_priority y < unit_priority x
         \<or> unit_priority y = unit_priority x \<and> InitialAttemptTimestamp x \<le> InitialAttemptTimestamp y)"
  using psq.pop_guarded [OF assms] by (fastforce simp: QueueLess_iff not_less)

lemma add_sample:
  assumes "QueuePolicy q = Priority_Name"
  shows "\<exists>p. PSQ_Add t1 t2 (new_queue Q ord handle i m q) u = Ok (p, None) \<and> psq_inv p
    \<and> active_units p = [unit_key u \<mapsto> NewQueueUnitInfo t1 t2 u] \<and> backoff_units p = Map.empty
    \<and> 0 < PSQ_Length p \<and> same_queue (new_queue Q ord handle i m q) p"
proof -
  note new = New_inv [of "in_tree_framework Q ord handle" "QueuePolicy q" "q_Namespace q" i m q]
  from new psq.add_spec [of "new_queue Q ord handle i m q" t1 t2 u] assms obtain p where
    p: "PSQ_Add t1 t2 (new_queue Q ord handle i m q) u = Ok (p, None)" "psq_inv p"
      "active_units p = [unit_key u \<mapsto> NewQueueUnitInfo t1 t2 u]" "backoff_units p = Map.empty"
      "same_queue (new_queue Q ord handle i m q) p"
    by auto
  then have "PSQ_Length p \<noteq> 0" using psq.len_zero [of p] by simp
  with p show ?thesis by simp
qed

theorem pop_takes_best_witness:
  "\<exists>p p' x. PSQ_Add 1 2 (new_queue int_quantity cpu_order () 1 20 (sample_queue ''a'' Priority_Name None))
       (sample_unit ''a'' ''j'' ''a'' None (cpu_list 3)) = Ok (p, None)
    \<and> PSQ_Pop p = Ok (p', x) \<and> active_units p (info_Name x) = Some x"
  using add_sample [of "sample_queue ''a'' Priority_Name None" 1 2 int_quantity cpu_order "()" 1 20
      "sample_unit ''a'' ''j'' ''a'' None (cpu_list 3)"] pop_takes_best
  by (simp add: sample_queue_def) blast

text \<open>C7. A flush with a clock that does not run backwards moves to the ready units exactly those units
  whose backoff has ended at one of its clock readings, unchanged, and leaves the others waiting.\<close>

theorem flush_moves_expired:
  assumes "psq_inv p" "mono clk"
  shows "\<exists>p' N. flushBackoffQCompleted clk p = Ok p' \<and> psq_inv p' \<and> same_queue p p'
    \<and> backoff_units p' = backoff_units p |` (- expired p (clk N))
    \<and> active_units p' = active_units p ++ (backoff_units p |` expired p (clk N))"
  using flush_loop_flushed [OF assms(2,1), of 0] by (auto simp: flushBackoffQCompleted_def flushed_def)

theorem flush_moves_expired_witness:
  "\<exists>p p' N. PSQ_Add 1 2 (new_queue int_quantity cpu_order () 1 20 (sample_queue ''a'' Priority_Name None))
       (sample_unit ''a'' ''j'' ''a'' None (cpu_list 3)) = Ok (p, None)
    \<and> flushBackoffQCompleted int p = Ok p'
    \<and> backoff_units p' = backoff_units p |` (- expired p (int N))"
  using add_sample [of "sample_queue ''a'' Priority_Name None" 1 2 int_quantity cpu_order "()" 1 20
      "sample_unit ''a'' ''j'' ''a'' None (cpu_list 3)"]
    flush_moves_expired [of _ int] by (simp add: sample_queue_def mono_def) blast

abbreviation sample_new :: "int PrioritySchedulingQueue" where
  "sample_new \<equiv> new_queue int_quantity cpu_order () 1 20 (sample_queue ''a'' Priority_Name None)"

abbreviation sample_job :: "int QueueUnit" where
  "sample_job \<equiv> sample_unit ''a'' ''j'' ''a'' None (cpu_list 3)"

lemma add_sample_job:
  "\<exists>p. PSQ_Add 1 2 sample_new sample_job = Ok (p, None) \<and> psq_inv p
    \<and> active_units p = [unit_key sample_job \<mapsto> NewQueueUnitInfo 1 2 sample_job]
    \<and> backoff_units p = Map.empty \<and> 0 < PSQ_Length p \<and> same_queue sample_new p"
  using add_sample [of "sample_queue ''a'' Priority_Name None"] by (simp add: sample_queue_def)

lemma sample_new_inv: "psq_inv sample_new" "active_units sample_new = Map.empty"
    "backoff_units sample_new = Map.empty"
  using New_inv [of "in_tree_framework int_quantity cpu_order ()" Priority_Name "''a''" 1 20
      "sample_queue ''a'' Priority_Name None"]
  by (simp_all add: sample_queue_def)

text \<open>Popping a unit and giving it back under the same name, whatever else changed in it, conserves
  the units of the queue: the unit now waits (unless a copy was waiting already), the other ready
  units stay ready.\<close>

theorem pop_requeue_conserves:
  assumes "psq_inv p" "0 < PSQ_Length p"
  shows "\<exists>p1 x. PSQ_Pop p = Ok (p1, x) \<and>
    (\<forall>x'. info_Name x' = info_Name x \<longrightarrow>
      (\<exists>p2. AddUnschedulableIfNotPresent p1 x' = Ok (p2, None) \<and> psq_inv p2
        \<and> dom (active_units p2) \<union> dom (backoff_units p2) = dom (active_units p) \<union> dom (backoff_units p)
        \<and> active_units p2 = (active_units p)(info_Name x := None)
        \<and> (backoff_units p (info_Name x) = None
             \<longrightarrow> backoff_units p2 = (backoff_units p)(info_Name x \<mapsto> x'))))"
proof -
  from psq.pop_guarded [OF assms] obtain p1 x where x: "PSQ_Pop p = Ok (p1, x)" by blast
  have "active_units p \<noteq> Map.empty" using psq.len_zero [OF assms(1)] assms(2) by auto
  from psq.pop_requeue [OF assms(1) x this] x show ?thesis by (auto simp: psq.held_def)
qed

theorem pop_requeue_conserves_witness:
  "\<exists>p p1 x. PSQ_Add 1 2 sample_new sample_job = Ok (p, None) \<and> PSQ_Pop p = Ok (p1, x)
    \<and> (\<exists>p2. AddUnschedulableIfNotPresent p1 (x\<lparr>Attempts := 1\<rparr>) = Ok (p2, None)
        \<and> backoff_units p2 (info_Name x) = Some (x\<lparr>Attempts := 1\<rparr>))"
proof -
  from add_sample_job obtain p where p: "PSQ_Add 1 2 sample_new sample_job = Ok (p, None)" "psq_inv p"
    "0 < PSQ_Length p" "backoff_units p = Map.empty" by blast
  from pop_requeue_conserves [OF p(2,3)] show ?thesis
    apply (elim exE conjE)
    subgoal premises prems for p1 x
      using prems(1) prems(2) [THEN spec, of "x\<lparr>Attempts := 1\<rparr>"] p(1,4) by auto
    done
qed

text \<open>C30. A unit that is given back to a queue that does not hold it becomes ready by a flush at time \<open>c\<close>
  exactly if \<open>c\<close> is not before the end of its backoff; until then it waits.\<close>

theorem requeued_unit_waits:
  assumes "psq_inv p" "active_units p (info_Name x) = None" "backoff_units p (info_Name x) = None"
  shows "\<exists>p1 p2. AddUnschedulableIfNotPresent p x = Ok (p1, None)
    \<and> flushBackoffQCompleted (\<lambda>_. c) p1 = Ok p2
    \<and> (if getBackoffTime (podInitialBackoffDuration p) (podMaxBackoffDuration p) x \<le> c
       then active_units p2 (info_Name x) = Some x \<and> backoff_units p2 (info_Name x) = None
       else active_units p2 (info_Name x) = None \<and> backoff_units p2 (info_Name x) = Some x)"
proof -
  from psq.requeue_spec [OF assms(1), of x] assms(2,3) obtain p1 where
    p1: "AddUnschedulableIfNotPresent p x = Ok (p1, None)" "psq_inv p1" "same_queue p p1"
      "active_units p1 = active_units p" "backoff_units p1 = (backoff_units p)(info_Name x \<mapsto> x)" by auto
  from flush_loop_flushed [OF _ p1(2), of "\<lambda>_. c" 0] obtain p2 where
    p2: "flushBackoffQCompleted (\<lambda>_. c) p1 = Ok p2" "flushed c p1 p2"
    by (auto simp: flushBackoffQCompleted_def mono_def)
  have "info_Name x \<in> expired p1 c \<longleftrightarrow>
      getBackoffTime (podInitialBackoffDuration p) (podMaxBackoffDuration p) x \<le> c"
    using p1(5) same_queue_fields(1,2) [OF p1(3)] by (simp add: expired_def backoff_end_def)
  with p1 p2 assms(2) show ?thesis
    by (auto simp: flushed_def map_add_def restrict_map_def)
qed

theorem requeued_unit_waits_witness:
  "\<exists>p1 p2. AddUnschedulableIfNotPresent sample_new ((NewQueueUnitInfo 5 5 sample_job)\<lparr>Attempts := 2\<rparr>) = Ok (p1, None)
    \<and> flushBackoffQCompleted (\<lambda>_. 2000000004) p1 = Ok p2
    \<and> backoff_units p2 (unit_key sample_job) = Some ((NewQueueUnitInfo 5 5 sample_job)\<lparr>Attempts := 2\<rparr>)"
proof -
  let ?x = "(NewQueueUnitInfo 5 5 sample_job)\<lparr>Attempts := 2\<rparr>"
  have name: "info_Name ?x = unit_key sample_job" by (simp add: NewQueueUnitInfo_def)
  have "\<not> getBackoffTime (podInitialBackoffDuration sample_new) (podMaxBackoffDuration sample_new) ?x \<le> 2000000004"
    by (simp add: getBackoffTime_def calculateBackoffDuration_def NewPrioritySchedulingQueue_def Let_def
        seconds_def backoff_loop.simps NewQueueUnitInfo_def)
  with requeued_unit_waits [OF sample_new_inv(1), of ?x 2000000004] sample_new_inv(2,3) name
  show ?thesis by (auto simp: name)
qed

text \<open>Updating a unit the queue holds replaces its record by a new one: the number of attempts drops to
  0, both timestamps become the time of the update, also for a unit in backoff, whose waiting time
  starts anew; a unit the queue does not hold is not added.\<close>

theorem update_restarts_unit:
  assumes "psq_inv p"
  shows "\<exists>p'. PSQ_Update t1 t2 p old u = Ok (p', None) \<and> psq_inv p'
    \<and> dom (active_units p') = dom (active_units p) \<and> dom (backoff_units p') = dom (backoff_units p)
    \<and> (unit_key u \<in> dom (active_units p) \<union> dom (backoff_units p) \<longrightarrow>
        (\<exists>x. (active_units p' (unit_key u) = Some x \<or> backoff_units p' (unit_key u) = Some x)
          \<and> Unit x = u \<and> Attempts x = 0 \<and> Timestamp x = t1 \<and> InitialAttemptTimestamp x = t2))"
proof -
  let ?x = "NewQueueUnitInfo t1 t2 u"
  from psq.update_spec [OF assms, of t1 t2 old u] obtain p' where
    p': "PSQ_Update t1 t2 p old u = Ok (p', None)" "psq_inv p'"
      "active_units p' = (if active_units p (unit_key u) = None then active_units p
         else (active_units p)(unit_key u \<mapsto> NewQueueUnitInfo t1 t2 u))"
      "backoff_units p' = (if active_units p (unit_key u) = None \<and> backoff_units p (unit_key u) \<noteq> None
         then (backoff_units p)(unit_key u \<mapsto> NewQueueUnitInfo t1 t2 u) else backoff_units p)"
    by blast
  have "dom (active_units p') = dom (active_units p)" "dom (backoff_units p') = dom (backoff_units p)"
    using p'(3,4) by auto
  moreover have "active_units p' (unit_key u) = Some (NewQueueUnitInfo t1 t2 u)
      \<or> backoff_units p' (unit_key u) = Some (NewQueueUnitInfo t1 t2 u)"
    if "unit_key u \<in> dom (active_units p) \<union> dom (backoff_units p)"
    using that p'(3,4) by auto
  moreover have "Unit ?x = u \<and> Attempts ?x = 0 \<and> Timestamp ?x = t1 \<and> InitialAttemptTimestamp ?x = t2"
    by (simp add: NewQueueUnitInfo_def)
  ultimately show ?thesis using p'(1,2) by blast
qed

theorem update_restarts_unit_witness:
  "\<exists>p p'. PSQ_Add 1 2 sample_new sample_job = Ok (p, None)
    \<and> PSQ_Update 8 9 p sample_job sample_job = Ok (p', None)
    \<and> dom (active_units p') = dom (active_units p)"
proof -
  from add_sample_job obtain p where p: "PSQ_Add 1 2 sample_new sample_job = Ok (p, None)" "psq_inv p"
    by blast
  with update_restarts_unit [OF p(2), of 8 9 sample_job sample_job] show ?thesis by blast
qed

text \<open>Every operation keeps a unit out of one of the two heaps, with one exception: adding a unit that
  waits in the backoff heap leaves it in both, and a later \<open>Delete\<close> removes only the ready copy.\<close>

theorem add_during_backoff_duplicates:
  assumes "psq_inv p" "backoff_units p (unit_key u) = Some x"
  shows "\<exists>p1 p2. PSQ_Add t1 t2 p u = Ok (p1, None) \<and> PSQ_Delete p1 u = Ok (p2, None)
    \<and> active_units p1 (unit_key u) = Some (NewQueueUnitInfo t1 t2 u)
    \<and> backoff_units p1 (unit_key u) = Some x
    \<and> active_units p2 (unit_key u) = None \<and> backoff_units p2 (unit_key u) = Some x"
proof -
  from psq.add_spec [OF assms(1), of t1 t2 u] obtain p1 where
    p1: "PSQ_Add t1 t2 p u = Ok (p1, None)" "psq_inv p1"
      "active_units p1 = (active_units p)(unit_key u \<mapsto> NewQueueUnitInfo t1 t2 u)"
      "backoff_units p1 = backoff_units p" by blast
  with psq.delete_spec [OF p1(2), of u] assms(2) show ?thesis by auto
qed

theorem add_during_backoff_duplicates_witness:
  "\<exists>p p1 p2. AddUnschedulableIfNotPresent sample_new (NewQueueUnitInfo 5 5 sample_job) = Ok (p, None)
    \<and> PSQ_Add 1 2 p sample_job = Ok (p1, None) \<and> PSQ_Delete p1 sample_job = Ok (p2, None)
    \<and> backoff_units p2 (unit_key sample_job) = Some (NewQueueUnitInfo 5 5 sample_job)"
proof -
  from psq.requeue_spec [OF sample_new_inv(1), of "NewQueueUnitInfo 5 5 sample_job"] obtain p where
    p: "AddUnschedulableIfNotPresent sample_new (NewQueueUnitInfo 5 5 sample_job) = Ok (p, None)" "psq_inv p"
      "backoff_units p (unit_key sample_job) = Some (NewQueueUnitInfo 5 5 sample_job)"
    by (auto simp: sample_new_inv)
  with add_during_backoff_duplicates [OF p(2,3), of 1 2] show ?thesis by blast
qed

text \<open>Where the two heaps share no key, deleting a unit removes it from the queue altogether and
  giving back or updating a unit keeps the heaps disjoint.\<close>

theorem delete_removes_unit:
  assumes "psq_inv p" "dom (active_units p) \<inter> dom (backoff_units p) = {}"
  shows "(\<exists>p'. PSQ_Delete p u = Ok (p', None) \<and> psq_inv p'
      \<and> dom (active_units p') \<inter> dom (backoff_units p') = {}
      \<and> dom (active_units p') \<union> dom (backoff_units p') =
          dom (active_units p) \<union> dom (backoff_units p) - {unit_key u})
    \<and> (\<exists>p'. AddUnschedulableIfNotPresent p x = Ok (p', None)
      \<and> dom (active_units p') \<inter> dom (backoff_units p') = {})
    \<and> (\<exists>p'. PSQ_Update t1 t2 p old u = Ok (p', None)
      \<and> dom (active_units p') \<inter> dom (backoff_units p') = {})"
proof -
  have single: "psq.single p" using assms(2) by (simp add: psq.single_def)
  from psq.delete_spec [OF assms(1), of u] obtain p' where
    p': "PSQ_Delete p u = Ok (p', None)" "psq_inv p'" "active_units p' = (active_units p)(unit_key u := None)"
      "backoff_units p' = (if active_units p (unit_key u) = None then (backoff_units p)(unit_key u := None)
         else backoff_units p)" by blast
  have "dom (active_units p') \<union> dom (backoff_units p') =
      dom (active_units p) \<union> dom (backoff_units p) - {unit_key u}"
    using p'(3,4) assms(2) by (auto simp: disjoint_iff)
  with p' psq.single_delete [OF assms(1) single p'(1)]
    psq.requeue_spec [OF assms(1), of x] psq.single_requeue [OF assms(1) single]
    psq.update_spec [OF assms(1), of t1 t2 old u] psq.single_update [OF assms(1) single]
  show ?thesis unfolding psq.single_def by blast
qed

theorem delete_removes_unit_witness:
  "\<exists>p p'. PSQ_Add 1 2 sample_new sample_job = Ok (p, None) \<and> PSQ_Delete p sample_job = Ok (p', None)
    \<and> dom (active_units p') \<union> dom (backoff_units p') = {}"
proof -
  from add_sample_job obtain p where p: "PSQ_Add 1 2 sample_new sample_job = Ok (p, None)" "psq_inv p"
    "active_units p = [unit_key sample_job \<mapsto> NewQueueUnitInfo 1 2 sample_job]"
    "backoff_units p = Map.empty" by blast
  with delete_removes_unit [OF p(2), of sample_job "NewQueueUnitInfo 5 5 sample_job" 0 0 sample_job] show ?thesis by auto
qed

text \<open>A queue whose policy names no registered plugin, such as the policy "FIFO" of
  \<^verbatim>\<open>doc/queue.md\<close>, is created without an error and accepts one unit; adding a second unit
  under another key calls the nil comparison function and ends the process.\<close>

theorem unregistered_policy_panics:
  assumes "QueueSortFuncMap fw plugin = None" "unit_key u \<noteq> unit_key v"
  shows "\<exists>p. PSQ_Add t1 t2 (NewPrioritySchedulingQueue fw name plugin i m q) u = Ok (p, None)
    \<and> PSQ_Add t3 t4 p v = Panic NilFunctionCall"
  using assms
  by (auto simp: NewPrioritySchedulingQueue_def PSQ_Add_def Heap_New_def NewWithRecorder_def Heap_Add_def
      heap_Push_def data_defs unitInfoKeyFunc_def heap_up.simps [of _ "Suc 0"] policy_less_def Let_def)

theorem unregistered_policy_panics_witness:
  "\<exists>p. PSQ_Add 1 1 (new_queue int_quantity cpu_order () 1 20 (sample_queue ''a'' ''FIFO'' None)) sample_job
      = Ok (p, None)
    \<and> PSQ_Add 2 2 p (sample_unit ''a'' ''k'' ''a'' None (cpu_list 3)) = Panic NilFunctionCall"
  using unregistered_policy_panics [of "in_tree_framework int_quantity cpu_order ()" "''FIFO''" sample_job
      "sample_unit ''a'' ''k'' ''a'' None (cpu_list 3)"]
  by (simp add: sample_queue_def Priority_Name_def unit_key_def sample_unit_def)

text \<open>Nothing ever makes the channel \<^verbatim>\<open>stop\<close>: after any sequence of calls on a new queue of the
  policy "Priority", \<open>Close\<close> panics.\<close>

lemma close_panics:
  assumes "QueuePolicy q = Priority_Name"
  shows "go_bind (queue_run (new_queue Q ord handle i m q) cs) PSQ_Close = Panic CloseOfNilChannel"
proof -
  from new_queue_safe [OF assms, of Q ord handle i m cs] obtain p where
    p: "queue_run (new_queue Q ord handle i m q) cs = Ok p" "same_queue (new_queue Q ord handle i m q) p"
    by blast
  have "stop p = None" using same_queue_fields(6) [OF p(2)] by (simp add: NewPrioritySchedulingQueue_def Let_def)
  with p(1) show ?thesis by (simp add: PSQ_Close_def)
qed

text \<open>\<open>TopUnit\<close> returns the first unit of an iteration over the map of items, not the top of the
  heap: every ready unit is the result for some iteration order.\<close>

lemma TopUnit_any_unit:
  assumes "psq_inv p" "active_units p k = Some x"
  shows "\<exists>ks. is_range ks (items (psq_items p)) \<and> TopUnit ks p = Ok (Inr x)"
proof -
  have dom: "dom (items (psq_items p)) = dom (active_units p)"
    by (auto simp: active_units_def Heap_GetByKey_def)
  have "finite (dom (active_units p) - {k})"
    using active.heap.finite_lookup [OF psq_invD(1) [OF assms(1)]] by (simp add: active_units_def)
  from finite_distinct_list [OF this] obtain ks where ks: "set ks = dom (active_units p) - {k}" "distinct ks"
    by blast
  have "is_range (k # ks) (items (psq_items p))" using ks assms(2) by (auto simp: is_range_def dom)
  moreover have "TopUnit (k # ks) p = Ok (Inr x)"
  proof -
    have "0 < Heap_Len (psq_items p)"
      using PSQ_Length_zero [OF assms(1)] assms(2) by (auto simp: PSQ_Length_def intro: gr0I)
    moreover have "Heap_List (k # ks) (psq_items p) = x # Heap_List ks (psq_items p)"
      using assms(2) by (auto simp: Heap_List_def active_units_def Heap_GetByKey_def map_filter_simps)
    ultimately show ?thesis by (simp add: TopUnit_def)
  qed
  ultimately show ?thesis by blast
qed

end
