(* ===== verification/Multi_Queue.thy ===== *)
theory Multi_Queue
  imports Queue_Contract "HOL-Library.List_Lexorder" "HOL-Library.Char_ord"
begin

text \<open>
  The model of \<^verbatim>\<open>pkg/queue/multischedulingqueue/multi_scheduling_queue.go\<close>: a map from queue
  names (namespaces) to queues. Queues are objects that outlive their entry in the map (a flusher
  goroutine, the scheduler's sorted slice and the tasks it spawned keep pointers to them), so the
  map holds addresses into a store of queues. Starting a flusher adds its address to the list
  \<open>flushers\<close>: the goroutine runs \<^verbatim>\<open>wait.Until\<close> with a nil stop channel, so it never leaves
  the list.

  Two arguments stand for what Go leaves open: \<open>rng\<close> gives the order in which a map is ranged over
  and \<open>srt\<close> is \<^verbatim>\<open>sort.Slice\<close>, documented as a sort that need not be stable.
\<close>

section \<open>The store of queues\<close>

type_synonym addr = nat

record 'q objects =
  objs :: "addr \<rightharpoonup> 'q PrioritySchedulingQueue"
  next_addr :: addr
  flushers :: "addr list"

definition alloc :: "'q PrioritySchedulingQueue \<Rightarrow> 'q objects \<Rightarrow> addr \<times> 'q objects" where
  "alloc p w = (next_addr w, w\<lparr>objs := (objs w)(next_addr w \<mapsto> p), next_addr := Suc (next_addr w)\<rparr>)"

definition deref :: "'q objects \<Rightarrow> addr \<Rightarrow> 'q PrioritySchedulingQueue go" where
  "deref w a = (case objs w a of None \<Rightarrow> Panic NilDereference | Some p \<Rightarrow> Ok p)"

definition store :: "addr \<Rightarrow> 'q PrioritySchedulingQueue \<Rightarrow> 'q objects \<Rightarrow> 'q objects" where
  "store a p w = w\<lparr>objs := (objs w)(a \<mapsto> p)\<rparr>"

text \<open>A method call on the queue at an address.\<close>

definition call ::
  "addr \<Rightarrow> ('q PrioritySchedulingQueue \<Rightarrow> ('q PrioritySchedulingQueue \<times> 'r) go) \<Rightarrow> 'q objects \<Rightarrow> ('q objects \<times> 'r) go" where
  "call a f w = go_bind (deref w a) (\<lambda>p. go_bind (f p) (\<lambda>(p', r). Ok (store a p' w, r)))"

text \<open>\<^verbatim>\<open>PrioritySchedulingQueue.Run\<close>: the flusher of the queue is started.\<close>

definition PSQ_Run :: "addr \<Rightarrow> 'q objects \<Rightarrow> 'q objects" where
  "PSQ_Run a w = w\<lparr>flushers := flushers w @ [a]\<rparr>"

section \<open>The operations\<close>

record ('q, 's, 'hd) MultiSchedulingQueue =
  mq_fw :: "('q, 's, 'hd) frameworkImpl"
  queueMap :: "string \<rightharpoonup> addr"
  mq_lessFunc :: MultiQueueLessFunc
  mq_podInitialBackoffSeconds :: int64
  mq_podMaxBackoffSeconds :: int64

type_synonym range_order = "(string \<rightharpoonup> addr) \<Rightarrow> string list"

definition NewMultiSchedulingQueue ::
  "('q, 's, 'hd) frameworkImpl \<Rightarrow> int64 \<Rightarrow> int64 \<Rightarrow> ('q, 's, 'hd) MultiSchedulingQueue go" where
  "NewMultiSchedulingQueue fw i m =
     go_bind (MultiQueueSortFunc fw) (\<lambda>lessFn.
       Ok \<lparr>mq_fw = fw, queueMap = Map.empty, mq_lessFunc = lessFn,
           mq_podInitialBackoffSeconds = i, mq_podMaxBackoffSeconds = m\<rparr>)"

fun run_loop :: "addr list \<Rightarrow> 'q objects \<Rightarrow> 'q objects go" where
  "run_loop [] w = Ok w"
| "run_loop (a # as) w =
     go_bind (deref w a) (\<lambda>q.
       if \<not> GetRunStatus q then
         go_bind (deref (PSQ_Run a w) a) (\<lambda>q'.
           run_loop as (store a (SetRunStatus q' True) (PSQ_Run a w)))
       else run_loop as w)"

text \<open>The queues in the order a range statement over the map visits them.\<close>

definition ranged :: "range_order \<Rightarrow> ('q, 's, 'hd) MultiSchedulingQueue \<Rightarrow> addr list" where
  "ranged rng mq = List.map_filter (queueMap mq) (rng (queueMap mq))"

definition MQ_Run ::
  "range_order \<Rightarrow> ('q, 's, 'hd) MultiSchedulingQueue \<Rightarrow> 'q objects \<Rightarrow> 'q objects go" where
  "MQ_Run rng mq w = run_loop (ranged rng mq) w"

fun close_loop :: "addr list \<Rightarrow> 'q objects \<Rightarrow> 'q objects go" where
  "close_loop [] w = Ok w"
| "close_loop (a # as) w =
     go_bind (call a (\<lambda>q. go_bind (PSQ_Close q) (\<lambda>q'. Ok (q', ()))) w) (\<lambda>(w', _). close_loop as w')"

definition MQ_Close ::
  "range_order \<Rightarrow> ('q, 's, 'hd) MultiSchedulingQueue \<Rightarrow> 'q objects \<Rightarrow> 'q objects go" where
  "MQ_Close rng mq w = close_loop (ranged rng mq) w"

text \<open>The queue made for a \<^verbatim>\<open>Queue\<close> object by \<open>Add\<close> and \<open>Update\<close>.\<close>

definition queue_for :: "('q, 's, 'hd) MultiSchedulingQueue \<Rightarrow> Queue \<Rightarrow> 'q PrioritySchedulingQueue" where
  "queue_for mq q =
     NewPrioritySchedulingQueue (mq_fw mq) (q_Namespace q) (QueuePolicy q)
       (mq_podInitialBackoffSeconds mq) (mq_podMaxBackoffSeconds mq) q"

type_synonym ('q, 's, 'hd) mq_state = "('q, 's, 'hd) MultiSchedulingQueue \<times> 'q objects"

definition MQ_Add :: "range_order \<Rightarrow> Queue \<Rightarrow> ('q, 's, 'hd) mq_state \<Rightarrow> ('q, 's, 'hd) mq_state go" where
  "MQ_Add rng q = (\<lambda>(mq, w).
     let pq = queue_for mq q;
         (a, w1) = alloc pq w;
         mq1 = mq\<lparr>queueMap := (queueMap mq)(PSQ_Name pq \<mapsto> a)\<rparr>
     in go_bind (MQ_Run rng mq1 w1) (\<lambda>w2. Ok (mq1, w2)))"

definition MQ_Delete :: "Queue \<Rightarrow> ('q, 's, 'hd) mq_state \<Rightarrow> ('q, 's, 'hd) mq_state" where
  "MQ_Delete q = (\<lambda>(mq, w). (mq\<lparr>queueMap := (queueMap mq)(q_Namespace q := None)\<rparr>, w))"

definition MQ_Update :: "Queue \<Rightarrow> Queue \<Rightarrow> ('q, 's, 'hd) mq_state \<Rightarrow> ('q, 's, 'hd) mq_state" where
  "MQ_Update old q = (\<lambda>(mq, w).
     let pq = queue_for mq q;
         (a, w1) = alloc pq w
     in (mq\<lparr>queueMap := (queueMap mq)(PSQ_Name pq \<mapsto> a)\<rparr>, w1))"

definition GetQueueByName :: "('q, 's, 'hd) mq_state \<Rightarrow> string \<rightharpoonup> addr" where
  "GetQueueByName = (\<lambda>(mq, w) name. queueMap mq name)"

text \<open>\<^verbatim>\<open>unSortedQueue[i].QueueInfo()\<close> for every \<open>i\<close>: the information is fixed when a queue is made.\<close>

fun with_info :: "'q objects \<Rightarrow> addr list \<Rightarrow> (addr \<times> QueueInfo) list go" where
  "with_info w [] = Ok []"
| "with_info w (a # as) =
     go_bind (deref w a) (\<lambda>q. go_bind (with_info w as) (\<lambda>ps. Ok ((a, PSQ_QueueInfo q) # ps)))"

type_synonym slice_sort =
  "(addr \<times> QueueInfo \<Rightarrow> addr \<times> QueueInfo \<Rightarrow> bool) \<Rightarrow> (addr \<times> QueueInfo) list \<Rightarrow> (addr \<times> QueueInfo) list"

definition SortedQueue :: "range_order \<Rightarrow> slice_sort \<Rightarrow> ('q, 's, 'hd) mq_state \<Rightarrow> addr list go" where
  "SortedQueue rng srt = (\<lambda>(mq, w).
     go_bind (with_info w (ranged rng mq)) (\<lambda>unSortedQueue.
       Ok (map fst (srt (\<lambda>x y. mq_lessFunc mq (snd x) (snd y)) unSortedQueue))))"

definition queueInfoKeyFunc :: "'q PrioritySchedulingQueue \<Rightarrow> string + string" where
  "queueInfoKeyFunc q = Inr (PSQ_Name q)"

section \<open>What the language promises\<close>

definition range_ok :: "range_order \<Rightarrow> bool" where
  "range_ok rng \<longleftrightarrow> (\<forall>m. finite (dom m) \<longrightarrow> is_range (rng m) m)"

text \<open>\<^verbatim>\<open>sort.Slice\<close> with a strict weak order permutes the slice so that no element is less than
  an earlier one.\<close>

definition slice_sort_ok :: "slice_sort \<Rightarrow> bool" where
  "slice_sort_ok srt \<longleftrightarrow> (\<forall>lt xs. strict_weak_order lt \<longrightarrow>
     mset (srt lt xs) = mset xs \<and> sorted_wrt (\<lambda>x y. \<not> lt y x) (srt lt xs))"

lemma slice_sort_okD:
  assumes "slice_sort_ok srt" "strict_weak_order lt"
  shows "mset (srt lt xs) = mset xs" "sorted_wrt (\<lambda>x y. \<not> lt y x) (srt lt xs)"
  using assms unfolding slice_sort_ok_def by blast+

text \<open>Concrete instances: names in increasing order, insertion sort.\<close>

definition name_order :: range_order where
  "name_order m = sorted_list_of_set (dom m)"

fun insert_by :: "('a \<Rightarrow> 'a \<Rightarrow> bool) \<Rightarrow> 'a \<Rightarrow> 'a list \<Rightarrow> 'a list" where
  "insert_by lt x [] = [x]"
| "insert_by lt x (y # ys) = (if lt y x then y # insert_by lt x ys else x # y # ys)"

definition insertion_sort :: slice_sort where
  "insertion_sort lt xs = foldr (insert_by lt) xs []"

lemma name_order_ok: "range_ok name_order"
  by (simp add: range_ok_def name_order_def is_range_def)

lemma mset_insert_by [simp]: "mset (insert_by lt x ys) = add_mset x (mset ys)"
  by (induction ys) auto

lemma set_insert_by [simp]: "set (insert_by lt x ys) = insert x (set ys)"
  by (induction ys) auto

lemma sorted_insert_by:
  assumes "strict_weak_order lt"
  shows "sorted_wrt (\<lambda>x y. \<not> lt y x) ys \<Longrightarrow> sorted_wrt (\<lambda>x y. \<not> lt y x) (insert_by lt x ys)"
proof (induction ys)
  case (Cons y ys)
  show ?case
  proof (cases "lt y x")
    case True
    with Cons strict_weak_order.lt_asym [OF assms True] show ?thesis by simp
  next
    case False
    have "\<not> lt z x" if "z \<in> set ys" for z
      using that Cons.prems False strict_weak_order.not_lt_trans [OF assms] by (metis sorted_wrt.simps(2))
    with False Cons.prems show ?thesis by simp
  qed
qed simp

lemma insertion_sort_ok: "slice_sort_ok insertion_sort"
proof -
  have "mset (foldr (insert_by lt) xs []) = mset xs
      \<and> (strict_weak_order lt \<longrightarrow> sorted_wrt (\<lambda>x y. \<not> lt y x) (foldr (insert_by lt) xs []))"
    for lt :: "addr \<times> QueueInfo \<Rightarrow> addr \<times> QueueInfo \<Rightarrow> bool" and xs
    by (induction xs) (auto intro: sorted_insert_by)
  then show ?thesis by (simp add: slice_sort_ok_def insertion_sort_def)
qed

section \<open>Well-formed collections of queues\<close>

text \<open>
  Every entry of the map points to a queue of that name, addresses are handed out in order, and the
  queues marked as running are those with a flusher, which no queue has twice.
\<close>

definition store_ok :: "'q objects \<Rightarrow> bool" where
  "store_ok w \<longleftrightarrow> (\<forall>a p. objs w a = Some p \<longrightarrow> a < next_addr w)
     \<and> distinct (flushers w) \<and> (\<forall>a. a \<in> set (flushers w) \<longleftrightarrow> (\<exists>p. objs w a = Some p \<and> run p))"

definition map_ok :: "(string \<rightharpoonup> addr) \<Rightarrow> 'q objects \<Rightarrow> bool" where
  "map_ok m w \<longleftrightarrow> finite (dom m) \<and> (\<forall>k a. m k = Some a \<longrightarrow> (\<exists>p. objs w a = Some p \<and> psq_name p = k))"

definition mq_inv :: "('q, 's, 'hd) mq_state \<Rightarrow> bool" where
  "mq_inv = (\<lambda>(mq, w). store_ok w \<and> map_ok (queueMap mq) w)"

lemma deref_Ok [simp]: "objs w a = Some p \<Longrightarrow> deref w a = Ok p"
  by (simp add: deref_def)

lemma objs_store [simp]: "objs (store a p w) = (objs w)(a \<mapsto> p)" "next_addr (store a p w) = next_addr w"
    "flushers (store a p w) = flushers w"
  by (simp_all add: store_def)

lemma PSQ_Run_fields [simp]: "objs (PSQ_Run a w) = objs w" "next_addr (PSQ_Run a w) = next_addr w"
    "flushers (PSQ_Run a w) = flushers w @ [a]"
  by (simp_all add: PSQ_Run_def)

lemma map_okD: "map_ok m w \<Longrightarrow> m k = Some a \<Longrightarrow> \<exists>p. objs w a = Some p \<and> psq_name p = k"
  by (simp add: map_ok_def)

lemma map_ok_inj: "map_ok m w \<Longrightarrow> m k = Some a \<Longrightarrow> m k' = Some a \<Longrightarrow> k = k'"
  by (metis map_okD option.inject)

text \<open>A step on the queue at one address that keeps its name and its run status.\<close>

lemma mq_inv_store:
  assumes "mq_inv (mq, w)" "objs w a = Some p" "psq_name p' = psq_name p" "run p' = run p"
  shows "mq_inv (mq, store a p' w)"
proof -
  have "map_ok (queueMap mq) (store a p' w)"
    using assms map_okD [of "queueMap mq" w] by (fastforce simp: mq_inv_def map_ok_def)
  with assms show ?thesis by (auto simp: mq_inv_def store_ok_def)
qed

lemma ranged_set:
  assumes "range_ok rng" "finite (dom (queueMap mq))"
  shows "set (ranged rng mq) = ran (queueMap mq)"
proof -
  have "set (rng (queueMap mq)) = dom (queueMap mq)" using assms by (simp add: range_ok_def is_range_def)
  then show ?thesis by (auto simp: ranged_def List.map_filter_def ran_def image_iff) force+
qed

lemma ranged_distinct:
  assumes "range_ok rng" "map_ok (queueMap mq) w"
  shows "distinct (ranged rng mq)"
proof -
  let ?m = "queueMap mq"
  have d: "distinct (rng ?m)" using assms by (simp add: range_ok_def is_range_def map_ok_def)
  have "distinct (List.map_filter ?m ks)" if "distinct ks" for ks
    using that
    by (induction ks) (auto simp: List.map_filter_def dest: map_ok_inj [OF assms(2)] split: option.splits)
  with d show ?thesis by (simp add: ranged_def)
qed

text \<open>\<open>Run\<close> starts the flushers that are missing and changes nothing else.\<close>

definition started :: "addr set \<Rightarrow> 'q objects \<Rightarrow> 'q objects \<Rightarrow> bool" where
  "started A w w' \<longleftrightarrow> next_addr w' = next_addr w \<and> store_ok w'
     \<and> objs w' = (\<lambda>a. if a \<in> A then map_option (\<lambda>p. SetRunStatus p True) (objs w a) else objs w a)"

lemma run_loop_started:
  "store_ok w \<Longrightarrow> \<forall>a \<in> set as. objs w a \<noteq> None \<Longrightarrow> \<exists>w'. run_loop as w = Ok w' \<and> started (set as) w w'"
proof (induction as arbitrary: w)
  case Nil
  then show ?case by (simp add: started_def)
next
  case (Cons a as)
  then obtain p where p: "objs w a = Some p" by auto
  define w1 where "w1 = (if run p then w else store a (SetRunStatus p True) (PSQ_Run a w))"
  have ok: "store_ok w1"
    using Cons.prems(1) p by (auto simp: w1_def store_ok_def SetRunStatus_def)
  have w1: "objs w1 = (objs w)(a \<mapsto> SetRunStatus p True)" "next_addr w1 = next_addr w"
    using p by (auto simp: w1_def SetRunStatus_def fun_eq_iff)
  from Cons.IH [OF ok] Cons.prems(2) w1 obtain w' where
    w': "run_loop as w1 = Ok w'" "started (set as) w1 w'" by fastforce
  have "run_loop (a # as) w = run_loop as w1"
    using p by (simp add: w1_def GetRunStatus_def)
  moreover have "started (set (a # as)) w w'"
    using w'(2) w1 p by (auto simp: started_def fun_eq_iff SetRunStatus_def)
  ultimately show ?case using w'(1) by auto
qed

lemma started_map_ok: "started A w w' \<Longrightarrow> map_ok m w \<Longrightarrow> map_ok m w'"
  by (fastforce simp: started_def map_ok_def SetRunStatus_def)

lemma MQ_Run_spec:
  assumes "range_ok rng" "mq_inv (mq, w)"
  shows "\<exists>w'. MQ_Run rng mq w = Ok w' \<and> mq_inv (mq, w') \<and> started (ran (queueMap mq)) w w'"
proof -
  have fin: "finite (dom (queueMap mq))" using assms(2) by (simp add: mq_inv_def map_ok_def)
  have "\<forall>a \<in> set (ranged rng mq). objs w a \<noteq> None"
    using assms(2) ranged_set [OF assms(1) fin] by (fastforce simp: mq_inv_def map_ok_def ran_def)
  from run_loop_started [OF _ this] assms(2) obtain w' where
    w': "run_loop (ranged rng mq) w = Ok w'" "started (ran (queueMap mq)) w w'"
    using ranged_set [OF assms(1) fin] by (auto simp: mq_inv_def)
  with started_map_ok [OF w'(2)] assms(2) show ?thesis by (auto simp: MQ_Run_def mq_inv_def started_def)
qed

section \<open>The contract of the collection\<close>

text \<open>
  Locale \<open>multi_queue\<close> is what the controller and the scheduler use of
  \<^verbatim>\<open>MultiSchedulingQueue\<close>: \<open>spec\<close> reads the \<^verbatim>\<open>Queue\<close> object a
  queue was made for. Its lemma: any sequence of queue events keeps the collection well-formed and
  leaves exactly the queues the events name: an added queue is ignored where its name is taken, an
  updated queue replaces what is there.
\<close>

datatype queue_event = AddEvent Queue | UpdateEvent Queue Queue | DeleteEvent Queue

primrec specs_after :: "(string \<rightharpoonup> Queue) \<Rightarrow> queue_event \<Rightarrow> (string \<rightharpoonup> Queue)" where
  "specs_after m (AddEvent q) = (if m (q_Namespace q) = None then m(q_Namespace q \<mapsto> q) else m)"
| "specs_after m (UpdateEvent old q) = m(q_Namespace q \<mapsto> q)"
| "specs_after m (DeleteEvent q) = m(q_Namespace q := None)"

text \<open>
  The interface \<^verbatim>\<open>MultiSchedulingQueue\<close> of \<^verbatim>\<open>pkg/queue/interface.go\<close> as a record of methods, over a
  state \<open>'m\<close> and references \<open>'r\<close> to queues, and the methods of the struct of that name, which
  implements it.
\<close>

record ('m, 'r) MultiSchedulingQueue_interface =
  mi_Add :: "Queue \<Rightarrow> 'm \<Rightarrow> 'm go"
  mi_Delete :: "Queue \<Rightarrow> 'm \<Rightarrow> 'm"
  mi_Update :: "Queue \<Rightarrow> Queue \<Rightarrow> 'm \<Rightarrow> 'm"
  mi_SortedQueue :: "'m \<Rightarrow> 'r list go"
  mi_GetQueueByName :: "'m \<Rightarrow> string \<rightharpoonup> 'r"
  mi_Run :: "'m \<Rightarrow> 'm go"
  mi_Close :: "'m \<Rightarrow> 'm go"

definition MQ_methods :: "range_order \<Rightarrow> slice_sort \<Rightarrow> (('q, 's, 'hd) mq_state, addr) MultiSchedulingQueue_interface" where
  "MQ_methods rng srt =
     \<lparr>mi_Add = MQ_Add rng, mi_Delete = MQ_Delete, mi_Update = MQ_Update, mi_SortedQueue = SortedQueue rng srt,
      mi_GetQueueByName = GetQueueByName,
      mi_Run = (\<lambda>(mq, w). go_bind (MQ_Run rng mq w) (\<lambda>w'. Ok (mq, w'))),
      mi_Close = (\<lambda>(mq, w). go_bind (MQ_Close rng mq w) (\<lambda>w'. Ok (mq, w')))\<rparr>"

lemma MQ_methods_simps [simp]:
  "mi_Add (MQ_methods rng srt) = MQ_Add rng" "mi_Delete (MQ_methods rng srt) = MQ_Delete"
  "mi_Update (MQ_methods rng srt) = MQ_Update" "mi_SortedQueue (MQ_methods rng srt) = SortedQueue rng srt"
  "mi_GetQueueByName (MQ_methods rng srt) = GetQueueByName"
  "mi_Run (MQ_methods rng srt) (mq, w) = go_bind (MQ_Run rng mq w) (\<lambda>w'. Ok (mq, w'))"
  "mi_Close (MQ_methods rng srt) (mq, w) = go_bind (MQ_Close rng mq w) (\<lambda>w'. Ok (mq, w'))"
  by (simp_all add: MQ_methods_def)

locale multi_queue =
  fixes inv :: "'m \<Rightarrow> bool"
    and spec :: "'m \<Rightarrow> 'r \<Rightarrow> Queue"
    and M :: "('m, 'r) MultiSchedulingQueue_interface"
  assumes add_spec: "inv m \<Longrightarrow> \<exists>m' r. mi_Add M q m = Ok m' \<and> inv m'
      \<and> mi_GetQueueByName M m' = (mi_GetQueueByName M m)(q_Namespace q \<mapsto> r)
      \<and> r \<notin> ran (mi_GetQueueByName M m) \<and> spec m' r = q
      \<and> (\<forall>r' \<in> ran (mi_GetQueueByName M m). spec m' r' = spec m r')"
    and update_spec: "inv m \<Longrightarrow> \<exists>r. inv (mi_Update M old q m)
      \<and> mi_GetQueueByName M (mi_Update M old q m) = (mi_GetQueueByName M m)(q_Namespace q \<mapsto> r)
      \<and> r \<notin> ran (mi_GetQueueByName M m) \<and> spec (mi_Update M old q m) r = q
      \<and> (\<forall>r' \<in> ran (mi_GetQueueByName M m). spec (mi_Update M old q m) r' = spec m r')"
    and delete_spec: "inv m \<Longrightarrow> inv (mi_Delete M q m)
      \<and> mi_GetQueueByName M (mi_Delete M q m) = (mi_GetQueueByName M m)(q_Namespace q := None)
      \<and> spec (mi_Delete M q m) = spec m"
    and sorted_spec: "inv m \<Longrightarrow> \<exists>rs. mi_SortedQueue M m = Ok rs \<and> distinct rs \<and> set rs = ran (mi_GetQueueByName M m)
      \<and> sorted_wrt (\<lambda>r r'. \<not> MultiQueueLess (NewQueueInfo (spec m r')) (NewQueueInfo (spec m r))) rs"
    and run_spec: "inv m \<Longrightarrow> \<exists>m'. mi_Run M m = Ok m' \<and> inv m' \<and> mi_GetQueueByName M m' = mi_GetQueueByName M m
      \<and> (\<forall>r \<in> ran (mi_GetQueueByName M m). spec m' r = spec m r)"
begin

abbreviation get :: "'m \<Rightarrow> string \<rightharpoonup> 'r" where
  "get \<equiv> mi_GetQueueByName M"

definition specs :: "'m \<Rightarrow> string \<rightharpoonup> Queue" where
  "specs m k = map_option (spec m) (get m k)"

primrec handle :: "'m \<Rightarrow> queue_event \<Rightarrow> 'm go" where
  "handle m (AddEvent q) = (if get m (q_Namespace q) \<noteq> None then Ok m else mi_Add M q m)"
| "handle m (UpdateEvent old q) = Ok (mi_Update M old q m)"
| "handle m (DeleteEvent q) = Ok (mi_Delete M q m)"

fun handle_all :: "'m \<Rightarrow> queue_event list \<Rightarrow> 'm go" where
  "handle_all m [] = Ok m"
| "handle_all m (e # es) = go_bind (handle m e) (\<lambda>m'. handle_all m' es)"

lemma specs_upd:
  assumes "get m' = (get m)(k \<mapsto> r)" "spec m' r = q" "\<forall>r' \<in> ran (get m). spec m' r' = spec m r'"
  shows "specs m' = (specs m)(k \<mapsto> q)"
  using assms by (auto simp: specs_def fun_eq_iff ran_def map_option_case split: option.splits)

lemma handle_spec:
  assumes "inv m"
  shows "\<exists>m'. handle m e = Ok m' \<and> inv m' \<and> specs m' = specs_after (specs m) e"
proof (cases e)
  case (AddEvent q)
  from add_spec [OF assms, of q] obtain m' r where
    "mi_Add M q m = Ok m'" "inv m'" "get m' = (get m)(q_Namespace q \<mapsto> r)" "spec m' r = q"
    "\<forall>r' \<in> ran (get m). spec m' r' = spec m r'" by blast
  moreover from this(3-5) have "specs m' = (specs m)(q_Namespace q \<mapsto> q)" by (rule specs_upd)
  ultimately show ?thesis using AddEvent assms by (auto simp: specs_def)
next
  case (UpdateEvent old q)
  from update_spec [OF assms, of old q] specs_upd UpdateEvent show ?thesis by fastforce
next
  case (DeleteEvent q)
  from delete_spec [OF assms, of q] DeleteEvent show ?thesis by (auto simp: specs_def intro!: ext)
qed

lemma handle_all_spec:
  "inv m \<Longrightarrow> \<exists>m'. handle_all m es = Ok m' \<and> inv m' \<and> specs m' = foldl specs_after (specs m) es"
proof (induction es arbitrary: m)
  case (Cons e es)
  from handle_spec [OF Cons.prems, of e] obtain m1 where
    "handle m e = Ok m1" "inv m1" "specs m1 = specs_after (specs m) e" by blast
  with Cons.IH [of m1] show ?case by auto
qed simp

end

section \<open>MultiSchedulingQueue meets it\<close>

definition queue_spec :: "('q, 's, 'hd) mq_state \<Rightarrow> addr \<Rightarrow> Queue" where
  "queue_spec = (\<lambda>(mq, w) a. qi_Queue (psq_queue (the (objs w a))))"

definition mq_ready :: "('q, 's, 'hd) mq_state \<Rightarrow> bool" where
  "mq_ready m \<longleftrightarrow> mq_inv m \<and> mq_lessFunc (fst m) = MultiQueueLess"

lemma queue_for_fields [simp]:
  "psq_name (queue_for mq q) = q_Namespace q" "psq_queue (queue_for mq q) = NewQueueInfo q"
  "run (queue_for mq q) = False"
  by (simp_all add: queue_for_def NewPrioritySchedulingQueue_def Let_def)

lemma fresh_addr: "mq_inv (mq, w) \<Longrightarrow> objs w (next_addr w) = None"
  by (fastforce simp: mq_inv_def store_ok_def)

text \<open>The state of \<open>Add\<close> before it starts the flushers is the one \<open>Update\<close> ends in.\<close>

lemma MQ_Update_spec:
  assumes "mq_inv (mq, w)"
  shows "MQ_Update old q (mq, w) =
      (mq\<lparr>queueMap := (queueMap mq)(q_Namespace q \<mapsto> next_addr w)\<rparr>,
       w\<lparr>objs := (objs w)(next_addr w \<mapsto> queue_for mq q), next_addr := Suc (next_addr w)\<rparr>)"
    and "mq_inv (MQ_Update old q (mq, w))"
    and "next_addr w \<notin> ran (queueMap mq)" "next_addr w \<notin> set (flushers w)"
proof -
  note fresh = fresh_addr [OF assms]
  show eq: "MQ_Update old q (mq, w) =
      (mq\<lparr>queueMap := (queueMap mq)(q_Namespace q \<mapsto> next_addr w)\<rparr>,
       w\<lparr>objs := (objs w)(next_addr w \<mapsto> queue_for mq q), next_addr := Suc (next_addr w)\<rparr>)"
    by (simp add: MQ_Update_def alloc_def PSQ_Name_def)
  show "next_addr w \<notin> ran (queueMap mq)" "next_addr w \<notin> set (flushers w)"
    using assms fresh by (fastforce simp: mq_inv_def map_ok_def store_ok_def ran_def)+
  show "mq_inv (MQ_Update old q (mq, w))"
    using assms fresh unfolding eq by (fastforce simp: mq_inv_def map_ok_def store_ok_def less_Suc_eq)
qed

lemma MQ_Add_eq: "MQ_Add rng q m =
    (case MQ_Update old q m of (mq1, w1) \<Rightarrow> go_bind (MQ_Run rng mq1 w1) (\<lambda>w2. Ok (mq1, w2)))"
  by (simp add: MQ_Add_def MQ_Update_def alloc_def split_beta Let_def)

lemma MQ_Add_spec:
  assumes "range_ok rng" "mq_inv (mq, w)"
  shows "\<exists>mq' w' w1. MQ_Add rng q (mq, w) = Ok (mq', w') \<and> mq_inv (mq', w')
    \<and> (mq', w1) = MQ_Update q q (mq, w) \<and> started (ran (queueMap mq')) w1 w'"
proof -
  obtain mq1 w1 where u: "MQ_Update q q (mq, w) = (mq1, w1)" by force
  from MQ_Run_spec [OF assms(1), of mq1 w1] MQ_Update_spec(2) [OF assms(2), of q q] u show ?thesis
    by (auto simp: MQ_Add_eq [of rng q _ q])
qed

lemma MQ_Delete_inv: "mq_inv m \<Longrightarrow> mq_inv (MQ_Delete q m)"
  by (auto simp: mq_inv_def MQ_Delete_def map_ok_def split: prod.splits intro: finite_subset)

lemma started_psq_queue: "started A w w' \<Longrightarrow> objs w a = Some p \<Longrightarrow> psq_queue (the (objs w' a)) = psq_queue p"
  by (simp add: started_def SetRunStatus_def)

lemma with_info_Ok:
  "\<forall>a \<in> set as. objs w a \<noteq> None \<Longrightarrow> with_info w as = Ok (map (\<lambda>a. (a, psq_queue (the (objs w a)))) as)"
  by (induction as) (auto simp: PSQ_QueueInfo_def)

lemma MultiQueueLess_New [simp]:
  "MultiQueueLess (NewQueueInfo (qi_Queue x)) (NewQueueInfo (qi_Queue y)) = MultiQueueLess x y"
  by (simp add: MultiQueueLess_iff queue_priority_def NewQueueInfo_def)

lemma SortedQueue_spec:
  assumes "range_ok rng" "slice_sort_ok srt" "mq_ready m"
  shows "\<exists>as. SortedQueue rng srt m = Ok as \<and> distinct as \<and> set as = ran (GetQueueByName m)
    \<and> sorted_wrt (\<lambda>a b. \<not> MultiQueueLess (NewQueueInfo (queue_spec m b)) (NewQueueInfo (queue_spec m a))) as"
proof -
  obtain mq w where m: "m = (mq, w)" by force
  with assms(3) have inv: "mq_inv (mq, w)" and ls: "mq_lessFunc mq = MultiQueueLess"
    by (simp_all add: mq_ready_def)
  let ?r = "ranged rng mq" and ?info = "\<lambda>a. (a, psq_queue (the (objs w a)))"
    and ?lt = "\<lambda>x y :: addr \<times> QueueInfo. MultiQueueLess (snd x) (snd y)"
  have fin: "finite (dom (queueMap mq))" using inv by (simp add: mq_inv_def map_ok_def)
  note set_r = ranged_set [OF assms(1) fin]
  have dist: "distinct ?r" using ranged_distinct [OF assms(1)] inv by (auto simp: mq_inv_def)
  have alloc: "\<forall>a \<in> set ?r. objs w a \<noteq> None"
    using inv set_r by (fastforce simp: mq_inv_def map_ok_def ran_def)
  have swo: "strict_weak_order ?lt"
    by (rule pullback_strict_weak_order [OF queue_order.strict_weak_order_axioms])
  define xs where "xs = srt ?lt (map ?info ?r)"
  note xs = slice_sort_okD [OF assms(2) swo, of "map ?info ?r", folded xs_def]
  have mset_xs: "mset (map fst xs) = mset ?r"
    using arg_cong [OF xs(1), of "image_mset fst"] by (simp add: multiset.map_comp comp_def)
  have spec: "qi_Queue (snd x) = queue_spec m (fst x)" if "x \<in> set xs" for x
    using that mset_eq_setD [OF xs(1)] by (auto simp: m queue_spec_def)
  have "sorted_wrt (\<lambda>x y. \<not> MultiQueueLess (NewQueueInfo (queue_spec m (fst y)))
      (NewQueueInfo (queue_spec m (fst x)))) xs"
  proof (rule sorted_wrt_mono_rel [OF _ xs(2)])
    fix x y assume "x \<in> set xs" "y \<in> set xs" "\<not> ?lt y x"
    then show "\<not> MultiQueueLess (NewQueueInfo (queue_spec m (fst y))) (NewQueueInfo (queue_spec m (fst x)))"
      using spec MultiQueueLess_New by metis
  qed
  then have "sorted_wrt (\<lambda>a b. \<not> MultiQueueLess (NewQueueInfo (queue_spec m b)) (NewQueueInfo (queue_spec m a)))
      (map fst xs)"
    by (simp only: sorted_wrt_map)
  moreover have "SortedQueue rng srt m = Ok (map fst xs)"
    using with_info_Ok [OF alloc] ls by (simp add: m SortedQueue_def xs_def)
  moreover have "distinct (map fst xs)" "set (map fst xs) = ran (GetQueueByName m)"
    using mset_eq_imp_distinct_iff [OF mset_xs] dist mset_eq_setD [OF mset_xs] set_r
    by (simp_all add: m GetQueueByName_def)
  ultimately show ?thesis by blast
qed

lemma queue_spec_Update:
  assumes "mq_inv (mq, w)"
  shows "queue_spec (MQ_Update old q (mq, w)) (next_addr w) = q"
    and "a \<in> ran (queueMap mq) \<Longrightarrow> queue_spec (MQ_Update old q (mq, w)) a = queue_spec (mq, w) a"
  using MQ_Update_spec [OF assms] by (auto simp: queue_spec_def NewQueueInfo_def)

lemma queue_spec_started:
  assumes "started A w w'" "objs w a \<noteq> None"
  shows "queue_spec (mq, w') a = queue_spec (mq, w) a"
  using assms started_psq_queue by (fastforce simp: queue_spec_def)

lemma multi_queue_MQ:
  fixes m :: "('q, 's, 'hd) mq_state"
  assumes "range_ok rng" "slice_sort_ok srt"
  shows "multi_queue (mq_ready :: ('q, 's, 'hd) mq_state \<Rightarrow> bool) queue_spec (MQ_methods rng srt)"
proof (intro multi_queue.intro; (unfold MQ_methods_simps)?)
  fix m :: "('q, 's, 'hd) mq_state" and q old
  assume "mq_ready m"
  obtain mq w where m: "m = (mq, w)" by force
  with \<open>mq_ready m\<close> have inv: "mq_inv (mq, w)" and ls: "mq_lessFunc mq = MultiQueueLess"
    by (simp_all add: mq_ready_def)
  note upd = MQ_Update_spec [OF inv]
  show "\<exists>r. mq_ready (MQ_Update old q m) \<and> GetQueueByName (MQ_Update old q m) = (GetQueueByName m)(q_Namespace q \<mapsto> r)
      \<and> r \<notin> ran (GetQueueByName m) \<and> queue_spec (MQ_Update old q m) r = q
      \<and> (\<forall>r' \<in> ran (GetQueueByName m). queue_spec (MQ_Update old q m) r' = queue_spec m r')"
    using upd queue_spec_Update [OF inv] ls
    by (intro exI [of _ "next_addr w"]) (simp add: m mq_ready_def GetQueueByName_def)
  show "mq_ready (MQ_Delete q m) \<and> GetQueueByName (MQ_Delete q m) = (GetQueueByName m)(q_Namespace q := None)
      \<and> queue_spec (MQ_Delete q m) = queue_spec m"
    using MQ_Delete_inv [OF inv, of q] ls
    by (simp add: m mq_ready_def MQ_Delete_def GetQueueByName_def queue_spec_def)
  from MQ_Add_spec [OF assms(1) inv, of q] obtain mq' w' w1 where
    add: "MQ_Add rng q (mq, w) = Ok (mq', w')" "mq_inv (mq', w')" "(mq', w1) = MQ_Update q q (mq, w)"
      "started (ran (queueMap mq')) w1 w'" by blast
  have objs1: "objs w1 = (objs w)(next_addr w \<mapsto> queue_for mq q)"
    and map': "mq' = mq\<lparr>queueMap := (queueMap mq)(q_Namespace q \<mapsto> next_addr w)\<rparr>"
    using add(3) upd(1) [of q q] by simp_all
  have alive: "objs w1 a \<noteq> None" if "a \<in> insert (next_addr w) (ran (queueMap mq))" for a
    using that inv objs1 by (fastforce simp: mq_inv_def map_ok_def ran_def)
  have "queue_spec (mq', w') a = queue_spec (MQ_Update q q (mq, w)) a"
    if "a \<in> insert (next_addr w) (ran (queueMap mq))" for a
    using queue_spec_started [OF add(4) alive [OF that], of mq'] by (simp add: add(3) [symmetric])
  then show "\<exists>m' r. MQ_Add rng q m = Ok m' \<and> mq_ready m' \<and> GetQueueByName m' = (GetQueueByName m)(q_Namespace q \<mapsto> r)
      \<and> r \<notin> ran (GetQueueByName m) \<and> queue_spec m' r = q
      \<and> (\<forall>r' \<in> ran (GetQueueByName m). queue_spec m' r' = queue_spec m r')"
    using add(1,2) map' ls upd(3) queue_spec_Update [OF inv]
    by (intro exI [of _ "(mq', w')"] exI [of _ "next_addr w"])
       (auto simp: m mq_ready_def GetQueueByName_def)
  from MQ_Run_spec [OF assms(1) inv] obtain w2 where
    w2: "MQ_Run rng mq w = Ok w2" "mq_inv (mq, w2)" "started (ran (queueMap mq)) w w2" by blast
  have "objs w a \<noteq> None" if "a \<in> ran (queueMap mq)" for a
    using that inv by (fastforce simp: mq_inv_def map_ok_def ran_def)
  with w2 ls queue_spec_started [OF w2(3), of _ mq]
  show "\<exists>m'. mi_Run (MQ_methods rng srt) m = Ok m' \<and> mq_ready m' \<and> GetQueueByName m' = GetQueueByName m
      \<and> (\<forall>r \<in> ran (GetQueueByName m). queue_spec m' r = queue_spec m r)"
    by (simp add: m mq_ready_def GetQueueByName_def)
qed (rule SortedQueue_spec [OF assms])

text \<open>Go's runtime: any range order and any correct sort will do.\<close>

locale go_runtime =
  fixes rng :: range_order and srt :: slice_sort
  assumes rng: "range_ok rng" and srt: "slice_sort_ok srt"

sublocale go_runtime \<subseteq> mqs: multi_queue mq_ready queue_spec "MQ_methods rng srt"
  by (rule multi_queue_MQ [OF rng srt])

interpretation sample_runtime: go_runtime name_order insertion_sort
  by unfold_locales (rule name_order_ok, rule insertion_sort_ok)

end
