(* ===== verification/Multi_Queue_Props.thy ===== *)
theory Multi_Queue_Props
  imports Multi_Queue
begin

text \<open>
  The properties of \<^verbatim>\<open>MultiSchedulingQueue\<close>: the order in which the scheduler sees the queues,
  what \<open>Add\<close>, \<open>Update\<close> and \<open>Delete\<close> do to the queues, their units and their flushers.
\<close>

text \<open>The collection of the examples: the in-tree framework, one queue "a" of priority 3.\<close>

abbreviation sample_mq :: "(int, int ResourceQuota, unit) mq_state" where
  "sample_mq \<equiv>
    (\<lparr>mq_fw = in_tree_framework int_quantity cpu_order (), queueMap = Map.empty, mq_lessFunc = MultiQueueLess,
      mq_podInitialBackoffSeconds = 1, mq_podMaxBackoffSeconds = 20\<rparr>,
     \<lparr>objs = Map.empty, next_addr = 0, flushers = []\<rparr>)"

abbreviation queue_a :: Queue where
  "queue_a \<equiv> sample_queue ''a'' Priority_Name (Some 3)"

lemma sample_mq_ready: "mq_ready sample_mq"
  by (simp add: mq_ready_def mq_inv_def store_ok_def map_ok_def)

lemma sample_mq_new: "NewMultiSchedulingQueue (in_tree_framework int_quantity cpu_order ()) 1 20 = Ok (fst sample_mq)"
  by (simp add: NewMultiSchedulingQueue_def)

text \<open>C31. The scheduler's view: \<open>SortedQueue\<close> returns every queue of the map exactly once, in an order of
  descending priority, whatever the iteration order of the map and for any correct sort.\<close>

theorem sorted_queue_by_priority:
  assumes "range_ok rng" "slice_sort_ok srt" "mq_ready (mq, w)"
  shows "\<exists>as. SortedQueue rng srt (mq, w) = Ok as \<and> distinct as \<and> set as = ran (queueMap mq)
    \<and> sorted_wrt (\<lambda>a b. \<exists>p q. objs w a = Some p \<and> objs w b = Some q
         \<and> queue_priority (psq_queue q) \<le> queue_priority (psq_queue p)) as"
proof -
  from SortedQueue_spec [OF assms] obtain as where
    as: "SortedQueue rng srt (mq, w) = Ok as" "distinct as" "set as = ran (queueMap mq)"
      "sorted_wrt (\<lambda>a b. \<not> MultiQueueLess (NewQueueInfo (queue_spec (mq, w) b))
         (NewQueueInfo (queue_spec (mq, w) a))) as"
    by (auto simp: GetQueueByName_def)
  have alive: "\<exists>p. objs w a = Some p" if "a \<in> set as" for a
    using that as(3) assms(3) by (fastforce simp: mq_ready_def mq_inv_def map_ok_def ran_def)
  have "sorted_wrt (\<lambda>a b. \<exists>p q. objs w a = Some p \<and> objs w b = Some q
         \<and> queue_priority (psq_queue q) \<le> queue_priority (psq_queue p)) as"
  proof (rule sorted_wrt_mono_rel [OF _ as(4)])
    fix a b
    assume "a \<in> set as" "b \<in> set as" and le: "\<not> MultiQueueLess (NewQueueInfo (queue_spec (mq, w) b))
         (NewQueueInfo (queue_spec (mq, w) a))"
    then obtain p q where "objs w a = Some p" "objs w b = Some q" using alive by blast
    with le show "\<exists>p q. objs w a = Some p \<and> objs w b = Some q
         \<and> queue_priority (psq_queue q) \<le> queue_priority (psq_queue p)"
      by (simp add: queue_spec_def) (simp add: MultiQueueLess_iff not_less)
  qed
  with as show ?thesis by blast
qed

theorem sorted_queue_by_priority_witness:
  "\<exists>as. SortedQueue name_order insertion_sort (MQ_Update queue_a queue_a sample_mq) = Ok as
    \<and> distinct as \<and> set as = {0}"
  using sorted_queue_by_priority [OF name_order_ok insertion_sort_ok,
      of "fst (MQ_Update queue_a queue_a sample_mq)" "snd (MQ_Update queue_a queue_a sample_mq)"]
    multi_queue.update_spec [OF multi_queue_MQ [OF name_order_ok insertion_sort_ok] sample_mq_ready,
      of queue_a queue_a] MQ_Update_spec(1) [of "fst sample_mq" "snd sample_mq" queue_a queue_a]
    sample_mq_ready
  by (auto simp: mq_ready_def)

text \<open>Adding a queue puts a new, empty queue under its namespace, started: it has a flusher, as every
  other queue of the map then has. The other entries and the units of the other queues are untouched.\<close>

theorem added_queue_is_started:
  assumes "range_ok rng" "mq_inv (mq, w)" "QueueSortFuncMap (mq_fw mq) (QueuePolicy q) = Some QueueLess"
  shows "\<exists>mq' w' a p. MQ_Add rng q (mq, w) = Ok (mq', w') \<and> mq_inv (mq', w')
    \<and> queueMap mq' = (queueMap mq)(q_Namespace q \<mapsto> a) \<and> objs w a = None \<and> objs w' a = Some p
    \<and> psq_inv p \<and> active_units p = Map.empty \<and> backoff_units p = Map.empty \<and> psq_queue p = NewQueueInfo q
    \<and> (\<forall>b \<in> ran (queueMap mq'). b \<in> set (flushers w'))
    \<and> (\<forall>b pb. objs w b = Some pb \<longrightarrow> (\<exists>pb'. objs w' b = Some pb' \<and> psq_items pb' = psq_items pb
         \<and> backoffQ pb' = backoffQ pb))"
proof -
  let ?a = "next_addr w" and ?p = "SetRunStatus (queue_for mq q) True"
  from MQ_Add_spec [OF assms(1,2), of q] obtain mq' w' w1 where
    add: "MQ_Add rng q (mq, w) = Ok (mq', w')" "mq_inv (mq', w')" "(mq', w1) = MQ_Update q q (mq, w)"
      "started (ran (queueMap mq')) w1 w'" by blast
  note upd = MQ_Update_spec [OF assms(2)] and fresh = fresh_addr [OF assms(2)]
  have map': "queueMap mq' = (queueMap mq)(q_Namespace q \<mapsto> ?a)"
    and objs1: "objs w1 = (objs w)(?a \<mapsto> queue_for mq q)"
    using add(3) upd(1) [of q q] by simp_all
  have objs': "objs w' b = (if b \<in> ran (queueMap mq') then map_option (\<lambda>p. SetRunStatus p True) (objs w1 b)
      else objs w1 b)" for b
    using add(4) by (simp add: started_def)
  have "?a \<in> ran (queueMap mq')" using map' by (auto simp: ran_def)
  then have a: "objs w' ?a = Some ?p" by (simp add: objs' objs1)
  have "psq_inv ?p \<and> active_units ?p = Map.empty \<and> backoff_units ?p = Map.empty"
    using New_inv [OF assms(3)] by (simp add: queue_for_def SetRunStatus_def view_defs)
  moreover have "psq_queue ?p = NewQueueInfo q" by (simp add: SetRunStatus_def)
  moreover have "\<forall>b \<in> ran (queueMap mq'). b \<in> set (flushers w')"
  proof
    fix b assume b: "b \<in> ran (queueMap mq')"
    then obtain k where "queueMap mq' k = Some b" by (auto simp: ran_def)
    then obtain pb where "objs w' b = Some pb" using add(2) by (auto simp: mq_inv_def map_ok_def)
    moreover from this have "run pb" using objs' [of b] b by (auto simp: SetRunStatus_def)
    ultimately show "b \<in> set (flushers w')" using add(2) by (auto simp: mq_inv_def store_ok_def)
  qed
  moreover have "\<exists>pb'. objs w' b = Some pb' \<and> psq_items pb' = psq_items pb \<and> backoffQ pb' = backoffQ pb"
    if "objs w b = Some pb" for b pb
    using that fresh by (auto simp: objs' objs1 SetRunStatus_def)
  ultimately show ?thesis using add(1,2) map' a fresh by blast
qed

theorem added_queue_is_started_witness:
  "\<exists>mq' w' a p. MQ_Add name_order queue_a sample_mq = Ok (mq', w') \<and> queueMap mq' = [''a'' \<mapsto> a]
    \<and> objs w' a = Some p \<and> active_units p = Map.empty \<and> psq_inv p \<and> a \<in> set (flushers w')"
proof -
  have "mq_inv sample_mq" using sample_mq_ready by (simp add: mq_ready_def)
  from added_queue_is_started [OF name_order_ok this, of queue_a] show ?thesis
    by (simp add: sample_queue_def) (metis fun_upd_same ranI)
qed

text \<open>C39. Updating a queue object replaces its queue by a new one that holds no unit and has no flusher:
  the units of the queue are not carried over, whatever changed in the object, and the queue's own
  backoff heap is flushed only after some later call of \<open>Add\<close> has started it.\<close>

theorem updated_queue_loses_units:
  assumes "mq_inv (mq, w)" "QueueSortFuncMap (mq_fw mq) (QueuePolicy q) = Some QueueLess"
  shows "\<exists>mq' w' a p. MQ_Update old q (mq, w) = (mq', w') \<and> mq_inv (mq', w')
    \<and> queueMap mq' = (queueMap mq)(q_Namespace q \<mapsto> a) \<and> objs w a = None \<and> objs w' a = Some p
    \<and> active_units p = Map.empty \<and> backoff_units p = Map.empty
    \<and> \<not> GetRunStatus p \<and> a \<notin> set (flushers w')
    \<and> (\<forall>b. queueMap mq (q_Namespace q) = Some b \<longrightarrow> b \<notin> ran (queueMap mq'))"
proof -
  let ?a = "next_addr w"
  note upd = MQ_Update_spec [OF assms(1)]
  have eq: "MQ_Update old q (mq, w) = (mq\<lparr>queueMap := (queueMap mq)(q_Namespace q \<mapsto> ?a)\<rparr>,
      w\<lparr>objs := (objs w)(?a \<mapsto> queue_for mq q), next_addr := Suc ?a\<rparr>)" (is "_ = (?mq', ?w')")
    by (rule upd(1))
  have "b \<notin> ran (queueMap ?mq')" if "queueMap mq (q_Namespace q) = Some b" for b
  proof
    assume "b \<in> ran (queueMap ?mq')"
    moreover have "b \<noteq> ?a" using that upd(3) by (auto simp: ran_def)
    ultimately obtain k where "k \<noteq> q_Namespace q" "queueMap mq k = Some b"
      by (auto simp: ran_def split: if_splits)
    with that assms(1) show False
      using map_ok_inj [of "queueMap mq" w k b "q_Namespace q"] by (simp add: mq_inv_def)
  qed
  moreover have "active_units (queue_for mq q) = Map.empty" "backoff_units (queue_for mq q) = Map.empty"
    using New_inv [OF assms(2)] by (simp_all add: queue_for_def)
  ultimately show ?thesis using eq upd(2) [of old q] upd(4) fresh_addr [OF assms(1)]
    by (intro exI [of _ ?mq'] exI [of _ ?w'] exI [of _ ?a] exI [of _ "queue_for mq q"])
       (auto simp: GetRunStatus_def)
qed

theorem updated_queue_loses_units_witness:
  "\<exists>mq' w' a p. MQ_Update queue_a queue_a sample_mq = (mq', w') \<and> queueMap mq' = [''a'' \<mapsto> a]
    \<and> objs w' a = Some p \<and> \<not> GetRunStatus p \<and> a \<notin> set (flushers w')"
proof -
  have "mq_inv sample_mq" using sample_mq_ready by (simp add: mq_ready_def)
  from updated_queue_loses_units [OF this, of queue_a queue_a] show ?thesis
    by (simp add: sample_queue_def) blast
qed

end
