(* ===== verification/Scheduler.thy ===== *)
theory Scheduler
  imports Multi_Queue
begin

text \<open>
  The model of \<^verbatim>\<open>pkg/scheduler/scheduler.go\<close>. The state is the world the goroutines share: the
  collection of queues and their store, the state of the plugins, the API server, and two things Go
  keeps for the scheduler. \<open>vars\<close> holds the loop variable \<^verbatim>\<open>q\<close> of each call of
  \<^verbatim>\<open>schedule\<close>: the module is built as go 1.14, where a \<^verbatim>\<open>for\<close> statement has one
  variable for all its rounds, and the closure given to \<^verbatim>\<open>go\<close> reads the variable when it
  runs. \<open>tasks\<close> lists the goroutines that were started and have not run: the unit and the loop
  variable each has captured.

  The API server is a parameter: its state and the results of \<open>Get\<close> and \<open>Update\<close> are those of
  the client record. Logging is left out, but for the method calls in its arguments, which
  panic on a nil status.
\<close>

section \<open>Data\<close>

record ('q, 'w) QueueClient =
  api_Get :: "'w \<Rightarrow> string \<Rightarrow> string \<Rightarrow> 'w \<times> (string + 'q QueueUnit)"
  api_Update :: "'w \<Rightarrow> string \<Rightarrow> 'q QueueUnit \<Rightarrow> 'w \<times> (string + 'q QueueUnit)"

record ('q, 's, 'hd, 'w) Scheduler =
  sch_fw :: "('q, 's, 'hd) frameworkImpl"
  sch_client :: "('q, 'w) QueueClient"

record ('q, 's, 'hd, 'w) world =
  mqueue :: "('q, 's, 'hd) MultiSchedulingQueue"
  objects :: "'q objects"
  plugins :: 's
  api :: 'w
  vars :: "nat \<rightharpoonup> addr"
  next_var :: nat
  tasks :: "('q QueueUnitInfo \<times> nat) list"

definition NewScheduler ::
  "('q, 's, 'hd) frameworkImpl \<Rightarrow> ('q, 'w) QueueClient \<Rightarrow> ('q, 's, 'hd, 'w) Scheduler" where
  "NewScheduler fw client = \<lparr>sch_fw = fw, sch_client = client\<rparr>"

section \<open>Operations\<close>

definition mark_dequeued :: "'q QueueUnit \<Rightarrow> 'q QueueUnit" where
  "mark_dequeued u =
     u\<lparr>qu_Status := (qu_Status u)\<lparr>Phase := Dequeued, Message := ''Dequeued because schedule successfully''\<rparr>\<rparr>"

text \<open>The result is the new state of the server and the error, if any.\<close>

definition Dequeue ::
  "('q, 's, 'hd, 'w) Scheduler \<Rightarrow> 'w \<Rightarrow> 'q QueueUnit \<Rightarrow> 'w \<times> string option" where
  "Dequeue s w queueUnit =
     (case api_Get (sch_client s) w (qu_Namespace queueUnit) (qu_Name queueUnit) of
        (w1, Inl err) \<Rightarrow> (w1, Some err)
      | (w1, Inr newQueueUnit) \<Rightarrow>
          (case api_Update (sch_client s) w1 (qu_Namespace queueUnit) (mark_dequeued newQueueUnit) of
             (w2, Inl err) \<Rightarrow> (w2, Some err)
           | (w2, Inr _) \<Rightarrow> (w2, None)))"

text \<open>\<open>now\<close> is the reading of the clock; \<open>q\<close> the queue the unit goes back to.\<close>

definition ErrorFunc ::
  "('q, 's, 'hd, 'w) Scheduler \<Rightarrow> time \<Rightarrow> 'q QueueUnitInfo \<Rightarrow> addr \<Rightarrow> ('q, 's, 'hd, 'w) world
   \<Rightarrow> ('q, 's, 'hd, 'w) world go" where
  "ErrorFunc s now queueUnit q W =
     (let u1 = queueUnit\<lparr>Attempts := Attempts queueUnit + 1, Timestamp := now\<rparr> in
      case api_Get (sch_client s) (api W) (qu_Namespace (Unit u1)) (qu_Name (Unit u1)) of
        (w, Inl err) \<Rightarrow> Ok (W\<lparr>api := w\<rparr>)
      | (w, Inr newQueueUnit) \<Rightarrow>
          go_bind (call q (\<lambda>p. AddUnschedulableIfNotPresent p (u1\<lparr>Unit := newQueueUnit\<rparr>)) (objects W))
            (\<lambda>(objs, err). Ok (W\<lparr>api := w, objects := objs\<rparr>)))"

text \<open>\<^verbatim>\<open>status.Code(), status.Message()\<close> of the log lines, then \<^verbatim>\<open>status.Code()\<close>.\<close>

definition log_status :: "Status option \<Rightarrow> Code go" where
  "log_status st = go_bind (Status_Code st) (\<lambda>_. go_bind (Status_Message st) (\<lambda>_. Status_Code st))"

text \<open>One round of the loop of \<^verbatim>\<open>schedule\<close>; \<open>v\<close> is the loop variable, \<open>q\<close> its new value.\<close>

definition schedule_round ::
  "('q, 's, 'hd, 'w) Scheduler \<Rightarrow> time \<Rightarrow> nat \<Rightarrow> addr \<Rightarrow> ('q, 's, 'hd, 'w) world
   \<Rightarrow> ('q, 's, 'hd, 'w) world go" where
  "schedule_round s now v q W =
     (let W0 = W\<lparr>vars := (vars W)(v \<mapsto> q)\<rparr> in
      go_bind (deref (objects W0) q) (\<lambda>p.
      if 0 < PSQ_Length p then
        go_bind (call q PSQ_Pop (objects W0)) (\<lambda>(objs, unitInfo).
        go_bind (RunFilterPlugins (sch_fw s) (plugins W0) unitInfo) (\<lambda>(pl1, status).
        let W1 = W0\<lparr>objects := objs, plugins := pl1\<rparr> in
        go_bind (log_status status) (\<lambda>code.
        if code = Success then
          go_bind (RunReservePluginsReserve (sch_fw s) (plugins W1) unitInfo) (\<lambda>(pl2, status2).
          let W2 = W1\<lparr>plugins := pl2\<rparr> in
          go_bind (log_status status2) (\<lambda>code2.
          if code2 \<noteq> Success then ErrorFunc s now unitInfo q W2
          else Ok (W2\<lparr>tasks := tasks W2 @ [(unitInfo, v)]\<rparr>)))
        else ErrorFunc s now unitInfo q W1)))
      else Ok W0))"

text \<open>\<open>clk n\<close> is the clock in round \<open>n\<close>.\<close>

fun schedule_loop ::
  "('q, 's, 'hd, 'w) Scheduler \<Rightarrow> (nat \<Rightarrow> time) \<Rightarrow> nat \<Rightarrow> nat \<Rightarrow> addr list \<Rightarrow> ('q, 's, 'hd, 'w) world
   \<Rightarrow> ('q, 's, 'hd, 'w) world go" where
  "schedule_loop s clk n v [] W = Ok W"
| "schedule_loop s clk n v (q # qs) W =
     go_bind (schedule_round s (clk n) v q W) (schedule_loop s clk (Suc n) v qs)"

definition schedule ::
  "range_order \<Rightarrow> slice_sort \<Rightarrow> ('q, 's, 'hd, 'w) Scheduler \<Rightarrow> (nat \<Rightarrow> time) \<Rightarrow> ('q, 's, 'hd, 'w) world
   \<Rightarrow> ('q, 's, 'hd, 'w) world go" where
  "schedule rng srt s clk W =
     go_bind (SortedQueue rng srt (mqueue W, objects W)) (\<lambda>sortedQueue.
       schedule_loop s clk 0 (next_var W) sortedQueue (W\<lparr>next_var := Suc (next_var W)\<rparr>))"

text \<open>The body of the goroutine started for a unit.\<close>

definition run_task ::
  "('q, 's, 'hd, 'w) Scheduler \<Rightarrow> time \<Rightarrow> 'q QueueUnitInfo \<Rightarrow> nat \<Rightarrow> ('q, 's, 'hd, 'w) world
   \<Rightarrow> ('q, 's, 'hd, 'w) world go" where
  "run_task s now unitInfo v W =
     (case Dequeue s (api W) (Unit unitInfo) of
        (w, None) \<Rightarrow> Ok (W\<lparr>api := w\<rparr>)
      | (w, Some err) \<Rightarrow>
          go_bind (RunReservePluginsUnreserve (sch_fw s) (plugins W) unitInfo) (\<lambda>pl.
          case vars W v of
            None \<Rightarrow> Panic NilDereference
          | Some q \<Rightarrow> ErrorFunc s now unitInfo q (W\<lparr>api := w, plugins := pl\<rparr>)))"

text \<open>
  \<^verbatim>\<open>internalSchedule\<close> calls \<open>schedule\<close> without end; \<open>internalSchedule_n\<close> is its first \<open>n\<close> rounds.
\<close>

fun internalSchedule_n ::
  "nat \<Rightarrow> range_order \<Rightarrow> slice_sort \<Rightarrow> ('q, 's, 'hd, 'w) Scheduler \<Rightarrow> (nat \<Rightarrow> nat \<Rightarrow> time)
   \<Rightarrow> ('q, 's, 'hd, 'w) world \<Rightarrow> ('q, 's, 'hd, 'w) world go" where
  "internalSchedule_n 0 rng srt s clk W = Ok W"
| "internalSchedule_n (Suc n) rng srt s clk W =
     go_bind (schedule rng srt s (clk n) W) (internalSchedule_n n rng srt s clk)"

text \<open>
  \<^verbatim>\<open>internalSchedule\<close> itself, from pass \<open>n\<close> on: it only comes back with a panic. \<open>None\<close> is a call
  that does not return.
\<close>

partial_function (option) internalSchedule ::
  "range_order \<Rightarrow> slice_sort \<Rightarrow> ('q, 's, 'hd, 'w) Scheduler \<Rightarrow> (nat \<Rightarrow> nat \<Rightarrow> time) \<Rightarrow> nat
   \<Rightarrow> ('q, 's, 'hd, 'w) world \<Rightarrow> ('q, 's, 'hd, 'w) world go option" where
  "internalSchedule rng srt s clk n W =
     (case schedule rng srt s (clk n) W of
        Panic e \<Rightarrow> Some (Panic e)
      | Ok W' \<Rightarrow> internalSchedule rng srt s clk (Suc n) W')"

definition Scheduler_Start ::
  "range_order \<Rightarrow> slice_sort \<Rightarrow> ('q, 's, 'hd, 'w) Scheduler \<Rightarrow> (nat \<Rightarrow> nat \<Rightarrow> time)
   \<Rightarrow> ('q, 's, 'hd, 'w) world \<Rightarrow> ('q, 's, 'hd, 'w) world go option" where
  "Scheduler_Start rng srt s clk W = internalSchedule rng srt s clk 0 W"

end
