(* ===== verification/Scheduler_Contract.thy ===== *)
theory Scheduler_Contract
  imports Scheduler
begin

text \<open>
  The invariant of the world the scheduler works in, and locale \<open>scheduler_env\<close>: under the
  interface of the framework (locale \<open>framework_client\<close>) and the documented behaviour of the API
  client, every piece of the scheduler returns and keeps the invariant. The locale is interpreted
  on the scheduler built with the in-tree framework.
\<close>

section \<open>The invariant\<close>

definition queue_ok :: "'q PrioritySchedulingQueue \<Rightarrow> bool" where
  "queue_ok p \<longleftrightarrow> psq_inv p \<and> (\<forall>k x. active_units p k = Some x \<or> backoff_units p k = Some x \<longrightarrow> unit_ok x)"

definition queues_ok :: "'q objects \<Rightarrow> bool" where
  "queues_ok w \<longleftrightarrow> (\<forall>a p. objs w a = Some p \<longrightarrow> queue_ok p)"

text \<open>Tasks hold proper units and a loop variable that has been set; variables point to queues.\<close>

definition world_ok :: "('q, 's, 'hd, 'w) world \<Rightarrow> bool" where
  "world_ok W \<longleftrightarrow> mq_ready (mqueue W, objects W) \<and> queues_ok (objects W)
     \<and> (\<forall>(u, v) \<in> set (tasks W). unit_ok u \<and> vars W v \<noteq> None)
     \<and> (\<forall>v a. vars W v = Some a \<longrightarrow> objs (objects W) a \<noteq> None)"

text \<open>What a step of the scheduler or of a task leaves alone.\<close>

definition keeps :: "('q, 's, 'hd, 'w) world \<Rightarrow> ('q, 's, 'hd, 'w) world \<Rightarrow> bool" where
  "keeps W W' \<longleftrightarrow> mqueue W' = mqueue W \<and> dom (objs (objects W')) = dom (objs (objects W))
     \<and> dom (vars W) \<subseteq> dom (vars W')"

lemma keeps_refl [simp]: "keeps W W"
  by (simp add: keeps_def)

lemma keeps_trans: "keeps W1 W2 \<Longrightarrow> keeps W2 W3 \<Longrightarrow> keeps W1 W3"
  unfolding keeps_def by (metis subset_trans)

text \<open>\<^verbatim>\<open>Get\<close> returns the object of the name asked for, and units refer to a consumer.\<close>

definition client_ok :: "('q, 'w) QueueClient \<Rightarrow> bool" where
  "client_ok c \<longleftrightarrow> (\<forall>w ns n w' u. api_Get c w ns n = (w', Inr u) \<longrightarrow>
     qu_Namespace u = ns \<and> qu_Name u = n \<and> ConsumerRef (qu_Spec u) \<noteq> None)"

lemma world_okD:
  assumes "world_ok W"
  shows "mq_ready (mqueue W, objects W)" "objs (objects W) a = Some p \<Longrightarrow> queue_ok p"
    "(u, v) \<in> set (tasks W) \<Longrightarrow> unit_ok u \<and> vars W v \<noteq> None"
    "vars W v = Some a \<Longrightarrow> objs (objects W) a \<noteq> None"
  using assms by (auto simp: world_ok_def queues_ok_def)

lemma world_ok_cong:
  "world_ok W \<Longrightarrow> mqueue W' = mqueue W \<Longrightarrow> objects W' = objects W \<Longrightarrow> tasks W' = tasks W \<Longrightarrow> vars W' = vars W
    \<Longrightarrow> world_ok W'"
  by (simp add: world_ok_def)

lemma world_ok_store:
  assumes "world_ok W" "objs (objects W) a = Some p" "queue_ok p'" "same_queue p p'"
  shows "world_ok (W\<lparr>objects := store a p' (objects W)\<rparr>)"
proof -
  have "mq_inv (mqueue W, store a p' (objects W))"
    using mq_inv_store [of "mqueue W" "objects W" a p p'] same_queue_fields(3,5) [OF assms(4)] assms(1,2)
    by (simp add: world_ok_def mq_ready_def)
  with assms show ?thesis by (auto simp: world_ok_def mq_ready_def queues_ok_def)
qed

lemma world_ok_var:
  assumes "world_ok W" "objs (objects W) a \<noteq> None"
  shows "world_ok (W\<lparr>vars := (vars W)(v \<mapsto> a)\<rparr>)"
  using assms by (auto simp: world_ok_def)

lemma world_ok_task:
  assumes "world_ok W" "unit_ok u" "vars W v \<noteq> None"
  shows "world_ok (W\<lparr>tasks := tasks W @ [(u, v)]\<rparr>)"
  using assms by (auto simp: world_ok_def)

lemma call_Ok:
  "objs w a = Some p \<Longrightarrow> f p = Ok (p', r) \<Longrightarrow> call a f w = Ok (store a p' w, r)"
  by (simp add: call_def)

lemma queue_ok_pop:
  assumes "queue_ok p" "0 < PSQ_Length p"
  shows "\<exists>p' u. PSQ_Pop p = Ok (p', u) \<and> queue_ok p' \<and> same_queue p p' \<and> unit_ok u"
proof -
  have inv: "psq_inv p" using assms(1) by (simp add: queue_ok_def)
  from psq.pop_guarded [OF inv assms(2)] obtain p' u where
    "PSQ_Pop p = Ok (p', u)" "psq_inv p'" "same_queue p p'" "active_units p (info_Name u) = Some u"
    "active_units p' = (active_units p)(info_Name u := None)" "backoff_units p' = backoff_units p" by blast
  moreover from this assms(1) have "queue_ok p'" "unit_ok u"
    by (auto simp: queue_ok_def split: if_splits)
  ultimately show ?thesis by blast
qed

lemma queue_ok_requeue:
  assumes "queue_ok p" "unit_ok x"
  shows "\<exists>p'. AddUnschedulableIfNotPresent p x = Ok (p', None) \<and> queue_ok p' \<and> same_queue p p'"
proof -
  have inv: "psq_inv p" using assms(1) by (simp add: queue_ok_def)
  from psq.requeue_spec [OF inv, of x] obtain p' where
    "AddUnschedulableIfNotPresent p x = Ok (p', None)" "psq_inv p'" "same_queue p p'"
    "active_units p' = active_units p"
    "backoff_units p' = (if active_units p (info_Name x) = None \<and> backoff_units p (info_Name x) = None
       then (backoff_units p)(info_Name x \<mapsto> x) else backoff_units p)" by blast
  moreover from this assms have "queue_ok p'" by (auto simp: queue_ok_def split: if_splits)
  ultimately show ?thesis by blast
qed

lemma log_status_New [simp]: "log_status (NewStatus c m) = Ok c"
  by (simp add: log_status_def)

section \<open>Every piece of the scheduler returns\<close>

text \<open>The record of a unit that goes back: one more attempt, the time, the object just read.\<close>

definition retried :: "time \<Rightarrow> 'q QueueUnit \<Rightarrow> 'q QueueUnitInfo \<Rightarrow> 'q QueueUnitInfo" where
  "retried now n u = u\<lparr>Attempts := Attempts u + 1, Timestamp := now, Unit := n\<rparr>"

locale scheduler_env =
  framework_client "framework_methods (sch_fw s)" for s :: "('q, 's, 'hd, 'w) Scheduler" +
  assumes client: "client_ok (sch_client s)"
begin

lemmas run_filter = filter_returns [unfolded framework_methods_simps]
  and run_reserve = reserve_returns [unfolded framework_methods_simps]
  and run_unreserve = unreserve_returns [unfolded framework_methods_simps]

lemma ErrorFunc_outcome:
  assumes "world_ok W" "objs (objects W) q = Some p"
  obtains (lost) w e where
      "api_Get (sch_client s) (api W) (qu_Namespace (Unit u)) (qu_Name (Unit u)) = (w, Inl e)"
      "ErrorFunc s now u q W = Ok (W\<lparr>api := w\<rparr>)" "world_ok (W\<lparr>api := w\<rparr>)"
    | (requeued) w n p' where
      "api_Get (sch_client s) (api W) (qu_Namespace (Unit u)) (qu_Name (Unit u)) = (w, Inr n)"
      "AddUnschedulableIfNotPresent p (retried now n u) = Ok (p', None)"
      "ErrorFunc s now u q W = Ok (W\<lparr>api := w, objects := store q p' (objects W)\<rparr>)"
      "world_ok (W\<lparr>api := w, objects := store q p' (objects W)\<rparr>)"
proof -
  obtain w r where get: "api_Get (sch_client s) (api W) (qu_Namespace (Unit u)) (qu_Name (Unit u)) = (w, r)"
    by force
  show thesis
  proof (cases r)
    case (Inl e)
    with get show ?thesis using world_ok_cong [OF assms(1), of "W\<lparr>api := w\<rparr>"]
      by (intro lost) (simp_all add: ErrorFunc_def Let_def)
  next
    case (Inr n)
    have "unit_ok (retried now n u)"
      using client get Inr by (fastforce simp: client_ok_def unit_ok_def retried_def)
    with queue_ok_requeue [OF world_okD(2) [OF assms]] obtain p' where
      p': "AddUnschedulableIfNotPresent p (retried now n u) = Ok (p', None)" "queue_ok p'" "same_queue p p'"
      by blast
    then have "ErrorFunc s now u q W = Ok (W\<lparr>api := w, objects := store q p' (objects W)\<rparr>)"
      using get Inr assms(2) by (simp add: ErrorFunc_def call_def retried_def Let_def)
    moreover have "world_ok (W\<lparr>api := w, objects := store q p' (objects W)\<rparr>)"
      using world_ok_store [OF assms p'(2,3)] by (rule world_ok_cong) simp_all
    ultimately show ?thesis using requeued get Inr p'(1) by simp
  qed
qed

lemma ErrorFunc_returns:
  assumes "world_ok W" "objs (objects W) q \<noteq> None"
  shows "\<exists>W'. ErrorFunc s now u q W = Ok W' \<and> world_ok W' \<and> keeps W W' \<and> tasks W' = tasks W"
proof -
  obtain p where p: "objs (objects W) q = Some p" using assms(2) by blast
  show ?thesis
    using p by (cases rule: ErrorFunc_outcome [OF assms(1) p, of u now]) (auto simp: keeps_def)
qed

text \<open>The three fates of the unit a round takes from the queue.\<close>

definition fate :: "time \<Rightarrow> nat \<Rightarrow> addr \<Rightarrow> 'q PrioritySchedulingQueue \<Rightarrow> 'q QueueUnitInfo
    \<Rightarrow> ('q, 's, 'hd, 'w) world \<Rightarrow> ('q, 's, 'hd, 'w) world \<Rightarrow> bool" where
  "fate now v q p1 u W W' \<longleftrightarrow>
     tasks W' = tasks W @ [(u, v)] \<and> objects W' = store q p1 (objects W) \<and> api W' = api W \<or>
     tasks W' = tasks W \<and> (\<exists>n p2.
       api_Get (sch_client s) (api W) (qu_Namespace (Unit u)) (qu_Name (Unit u)) = (api W', Inr n)
       \<and> AddUnschedulableIfNotPresent p1 (retried now n u) = Ok (p2, None)
       \<and> objects W' = store q p2 (objects W)) \<or>
     tasks W' = tasks W \<and> (\<exists>e.
       api_Get (sch_client s) (api W) (qu_Namespace (Unit u)) (qu_Name (Unit u)) = (api W', Inl e)
       \<and> objects W' = store q p1 (objects W))"

lemma ErrorFunc_fate:
  assumes "world_ok W1" "objects W1 = store q p1 (objects W)" "tasks W1 = tasks W" "api W1 = api W"
  shows "\<exists>W'. ErrorFunc s now u q W1 = Ok W' \<and> world_ok W' \<and> keeps W1 W' \<and> fate now v q p1 u W W'
    \<and> vars W' = vars W1"
proof -
  have p1: "objs (objects W1) q = Some p1" using assms(2) by simp
  have twice: "store q p2 (store q p1 w) = store q p2 w" for p2 and w :: "'q objects"
    by (simp add: store_def)
  show ?thesis
    using p1 assms
    by (cases rule: ErrorFunc_outcome [OF assms(1) p1, of u now]) (auto simp: keeps_def fate_def twice)
qed

lemma schedule_round_empty:
  assumes "world_ok W" "objs (objects W) q = Some p" "PSQ_Length p = 0"
  shows "schedule_round s now v q W = Ok (W\<lparr>vars := (vars W)(v \<mapsto> q)\<rparr>)"
  using assms by (simp add: schedule_round_def)

lemma schedule_round_fate:
  assumes "world_ok W" "objs (objects W) q = Some p" "0 < PSQ_Length p"
  shows "\<exists>p1 u W'. PSQ_Pop p = Ok (p1, u) \<and> schedule_round s now v q W = Ok W' \<and> world_ok W' \<and> keeps W W'
    \<and> fate now v q p1 u W W' \<and> vars W' v = Some q"
proof -
  let ?W0 = "W\<lparr>vars := (vars W)(v \<mapsto> q)\<rparr>"
  from queue_ok_pop [OF world_okD(2) [OF assms(1,2)] assms(3)] obtain p1 u where
    u: "PSQ_Pop p = Ok (p1, u)" "queue_ok p1" "same_queue p p1" "unit_ok u" by blast
  have pop: "call q PSQ_Pop (objects W) = Ok (store q p1 (objects W), u)"
    using call_Ok [OF assms(2), of PSQ_Pop] u(1) by simp
  define W0 where "W0 = ?W0\<lparr>objects := store q p1 (objects W)\<rparr>"
  have ok0: "world_ok W0"
    using world_ok_store [of ?W0 q p p1] world_ok_var [OF assms(1), of q v] assms(2) u(2,3)
    by (simp add: W0_def)
  obtain pl1 c m where f: "RunFilterPlugins (sch_fw s) (plugins W) u = Ok (pl1, NewStatus c m)"
    using run_filter [OF u(4)] by blast
  obtain pl2 c2 m2 where r: "RunReservePluginsReserve (sch_fw s) pl1 u = Ok (pl2, NewStatus c2 m2)"
    using run_reserve [OF u(4)] by blast
  define W2 where "W2 = W0\<lparr>plugins := if c = Success then pl2 else pl1\<rparr>"
  have ok2: "world_ok W2" using ok0 by (rule world_ok_cong) (simp_all add: W2_def)
  have W2: "objects W2 = store q p1 (objects W)" "tasks W2 = tasks W" "api W2 = api W" "vars W2 v = Some q"
    "keeps W W2"
    using assms(2) by (auto simp: W2_def W0_def keeps_def)
  have eq: "schedule_round s now v q W =
      (if c = Success \<and> c2 = Success then Ok (W2\<lparr>tasks := tasks W2 @ [(u, v)]\<rparr>) else ErrorFunc s now u q W2)"
    using assms(2,3) pop f r by (simp add: schedule_round_def Let_def W2_def W0_def)
  show ?thesis
  proof (cases "c = Success \<and> c2 = Success")
    case True
    have "world_ok (W2\<lparr>tasks := tasks W2 @ [(u, v)]\<rparr>)"
      using world_ok_task [OF ok2 u(4), of v] W2(4) by simp
    with True eq W2 u(1) show ?thesis by (auto simp: fate_def keeps_def)
  next
    case False
    from ErrorFunc_fate [OF ok2 W2(1-3), of now u v] obtain W' where
      "ErrorFunc s now u q W2 = Ok W'" "world_ok W'" "keeps W2 W'" "fate now v q p1 u W W'" "vars W' = vars W2"
      by blast
    with False eq W2(4,5) u(1) show ?thesis by (auto intro: keeps_trans)
  qed
qed

lemma schedule_round_returns:
  assumes "world_ok W" "objs (objects W) q \<noteq> None"
  shows "\<exists>W'. schedule_round s now v q W = Ok W' \<and> world_ok W' \<and> keeps W W' \<and> vars W' v = Some q"
proof -
  obtain p where p: "objs (objects W) q = Some p" using assms(2) by blast
  show ?thesis
  proof (cases "PSQ_Length p = 0")
    case True
    with schedule_round_empty [OF assms(1) p] world_ok_var [OF assms] show ?thesis
      by (auto simp: keeps_def)
  next
    case False
    with schedule_round_fate [OF assms(1) p, of now v] show ?thesis by auto
  qed
qed

lemma schedule_loop_returns:
  "world_ok W \<Longrightarrow> set qs \<subseteq> dom (objs (objects W)) \<Longrightarrow>
   \<exists>W'. schedule_loop s clk n v qs W = Ok W' \<and> world_ok W' \<and> keeps W W'
     \<and> (qs \<noteq> [] \<longrightarrow> vars W' v = Some (last qs))"
proof (induction qs arbitrary: n W)
  case (Cons q qs)
  then have "objs (objects W) q \<noteq> None" by auto
  from schedule_round_returns [OF Cons.prems(1) this, of "clk n" v] obtain W1 where
    W1: "schedule_round s (clk n) v q W = Ok W1" "world_ok W1" "keeps W W1" "vars W1 v = Some q" by blast
  have "set qs \<subseteq> dom (objs (objects W1))" using Cons.prems(2) W1(3) by (auto simp: keeps_def)
  from Cons.IH [OF W1(2) this, of "Suc n"] W1 show ?case by (cases qs) (auto intro: keeps_trans)
qed simp

lemma schedule_returns:
  assumes "range_ok rng" "slice_sort_ok srt" "world_ok W"
  shows "\<exists>W'. schedule rng srt s clk W = Ok W' \<and> world_ok W' \<and> keeps W W'"
proof -
  from SortedQueue_spec [OF assms(1,2) world_okD(1) [OF assms(3)]] obtain as where
    as: "SortedQueue rng srt (mqueue W, objects W) = Ok as" "set as = ran (queueMap (mqueue W))"
    by (auto simp: GetQueueByName_def)
  let ?W = "W\<lparr>next_var := Suc (next_var W)\<rparr>"
  have "world_ok ?W" using assms(3) by (rule world_ok_cong) simp_all
  moreover have "set as \<subseteq> dom (objs (objects ?W))"
    using as(2) world_okD(1) [OF assms(3)] by (fastforce simp: mq_ready_def mq_inv_def map_ok_def ran_def)
  ultimately show ?thesis
    using schedule_loop_returns [of ?W as clk 0 "next_var W"] as(1) by (auto simp: schedule_def keeps_def)
qed

lemma run_task_returns:
  assumes "world_ok W" "unit_ok u" "vars W v \<noteq> None"
  shows "\<exists>W'. run_task s now u v W = Ok W' \<and> world_ok W' \<and> keeps W W' \<and> tasks W' = tasks W"
proof -
  obtain q where q: "vars W v = Some q" using assms(3) by blast
  obtain w r where d: "Dequeue s (api W) (Unit u) = (w, r)" by force
  obtain pl where pl: "RunReservePluginsUnreserve (sch_fw s) (plugins W) u = Ok pl"
    using run_unreserve [OF assms(2)] by blast
  have ok: "world_ok (W\<lparr>api := w\<rparr>)" "world_ok (W\<lparr>api := w, plugins := pl\<rparr>)"
    by (rule world_ok_cong [OF assms(1)]; simp)+
  have "objs (objects (W\<lparr>api := w, plugins := pl\<rparr>)) q \<noteq> None"
    using world_okD(4) [OF assms(1) q] by simp
  from ErrorFunc_returns [OF ok(2) this, of now u] ok(1) d pl q show ?thesis
    by (cases r) (auto simp: run_task_def keeps_def)
qed

end

section \<open>The scheduler of the program\<close>

lemma scheduler_env_in_tree:
  assumes "sch_fw s = in_tree_framework Q ord handle" "client_ok (sch_client s)"
  shows "scheduler_env s"
  using assms in_tree.framework_client_axioms [of Q ord handle]
  by (simp add: scheduler_env_def scheduler_env_axioms_def)

text \<open>A server that stores units under their keys, for the examples.\<close>

definition store_client :: "('q, string \<rightharpoonup> 'q QueueUnit) QueueClient" where
  "store_client =
     \<lparr>api_Get = (\<lambda>w ns n. (w, case w (ns @ ''/'' @ n) of
          Some u \<Rightarrow> if qu_Namespace u = ns \<and> qu_Name u = n \<and> ConsumerRef (qu_Spec u) \<noteq> None then Inr u
            else Inl ''invalid''
        | None \<Rightarrow> Inl ''not found'')),
      api_Update = (\<lambda>w ns u. (w(unit_key u \<mapsto> u), Inr u))\<rparr>"

lemma store_client_ok: "client_ok store_client"
  by (auto simp: client_ok_def store_client_def split: option.splits if_splits)

interpretation in_tree_scheduler: scheduler_env
  "NewScheduler (in_tree_framework Q ord handle) store_client" for Q ord handle
  by (rule scheduler_env_in_tree) (simp_all add: NewScheduler_def store_client_ok)

end
