(* ===== verification/Scheduler_Props.thy ===== *)
theory Scheduler_Props
  imports Scheduler_Contract
begin

text \<open>
  The properties of the scheduler with the in-tree framework: passes never panic, what becomes of
  the unit a round takes, reservations within the quota, and two ways in which a unit ends up
  where it should not: in the queue of another namespace, or nowhere.
\<close>

section \<open>Concrete worlds\<close>

text \<open>Two queues, "a" of priority 3 and "b" of priority 1; "a" holds one unit of 3 CPUs.\<close>

definition job :: "int QueueUnit" where
  "job = sample_unit ''a'' ''j'' ''a'' None (cpu_list 3)"

definition qa :: Queue where "qa = sample_queue ''a'' Priority_Name (Some 3)"
definition qb :: Queue where "qb = sample_queue ''b'' Priority_Name (Some 1)"

abbreviation job_info :: "int QueueUnitInfo" where
  "job_info \<equiv> NewQueueUnitInfo 1 1 job"

definition two_mq :: "(int, int ResourceQuota, unit) MultiSchedulingQueue" where
  "two_mq = \<lparr>mq_fw = in_tree_framework int_quantity cpu_order (), queueMap = [''a'' \<mapsto> 0, ''b'' \<mapsto> 1],
      mq_lessFunc = MultiQueueLess, mq_podInitialBackoffSeconds = 1, mq_podMaxBackoffSeconds = 20\<rparr>"

definition pa :: "int PrioritySchedulingQueue" where
  "pa = (queue_for two_mq qa)\<lparr>psq_items := (psq_items (queue_for two_mq qa))\<lparr>
     items := [''a/j'' \<mapsto> \<lparr>obj = job_info, index = 0\<rparr>], queue := [''a/j'']\<rparr>\<rparr>"

definition two_world :: "'w \<Rightarrow> (int, int ResourceQuota, unit, 'w) world" where
  "two_world w =
    \<lparr>mqueue = two_mq,
     objects = \<lparr>objs = [0 \<mapsto> pa, 1 \<mapsto> queue_for two_mq qb], next_addr = 2, flushers = []\<rparr>,
     plugins = \<lparr>reserved = Map.empty, quRecord = Map.empty,
       rqLister = (\<lambda>_. Inr [\<lparr>quota_Name = ''a'', Hard = Some (cpu_list 10)\<rparr>])\<rparr>,
     api = w, vars = Map.empty, next_var = 0, tasks = []\<rparr>"

abbreviation two_scheduler :: "(int, 'w) QueueClient \<Rightarrow> (int, int ResourceQuota, unit, 'w) Scheduler" where
  "two_scheduler \<equiv> NewScheduler (in_tree_framework int_quantity cpu_order ())"

lemma unit_key_job [simp]: "unit_key job = ''a/j''"
  by (simp add: unit_key_def job_def sample_unit_def)

lemma pa_add: "PSQ_Add 1 1 (queue_for two_mq qa) job = Ok (pa, None)"
  by (simp add: pa_def PSQ_Add_def queue_for_def NewPrioritySchedulingQueue_def Heap_New_def NewWithRecorder_def
      Heap_Add_def heap_Push_def data_defs unitInfoKeyFunc_def Let_def NewQueueUnitInfo_def)

lemma pa_pop: "PSQ_Pop pa = Ok (queue_for two_mq qa, job_info)"
  by (simp add: pa_def PSQ_Pop_def queue_for_def NewPrioritySchedulingQueue_def Heap_New_def NewWithRecorder_def
      Heap_Pop_def heap_Pop_def heap_down_def data_defs heap_down_loop.simps Let_def)

lemma two_lengths [simp]: "PSQ_Length (queue_for two_mq q) = 0" "PSQ_Length pa = 1"
  by (simp_all add: PSQ_Length_def Heap_Len_def queue_for_def NewPrioritySchedulingQueue_def Heap_New_def
      NewWithRecorder_def Let_def pa_def)

lemma two_new:
  assumes "q \<in> {qa, qb}"
  shows "psq_inv (queue_for two_mq q)" "active_units (queue_for two_mq q) = Map.empty"
    "backoff_units (queue_for two_mq q) = Map.empty"
  using New_inv [of "in_tree_framework int_quantity cpu_order ()" Priority_Name] assms
  by (auto simp: queue_for_def two_mq_def qa_def qb_def sample_queue_def)

lemma two_queues_ok: "queue_ok pa" "queue_ok (queue_for two_mq qb)"
proof -
  have "psq_inv pa \<and> active_units pa = [''a/j'' \<mapsto> job_info] \<and> backoff_units pa = Map.empty"
    using psq.add_spec [OF two_new(1) [of qa], of 1 1 job] pa_add two_new(2,3) [of qa] by simp
  then show "queue_ok pa"
    by (auto simp: queue_ok_def unit_ok_def NewQueueUnitInfo_def job_def sample_unit_def split: if_splits)
  show "queue_ok (queue_for two_mq qb)" using two_new [of qb] by (simp add: queue_ok_def)
qed

lemma two_world_ok: "world_ok (two_world w)"
proof -
  have "psq_name pa = ''a''" "run pa = False" by (simp_all add: pa_def qa_def sample_queue_def)
  then have "mq_inv (mqueue (two_world w), objects (two_world w))"
    by (auto simp: mq_inv_def store_ok_def map_ok_def two_world_def two_mq_def qb_def sample_queue_def
        split: if_splits)
  with two_queues_ok show ?thesis
    by (simp add: world_ok_def mq_ready_def queues_ok_def) (simp add: two_world_def two_mq_def)
qed

section \<open>Properties\<close>

text \<open>Safety and progress of the scheduling loop: for the in-tree framework and any client that
  returns proper units, every number of consecutive passes returns without a panic, whatever the
  clock, the iteration order of the map and the (correct) sort; the world stays well-formed.\<close>

theorem scheduling_passes_return:
  assumes "range_ok rng" "slice_sort_ok srt" "client_ok client" "world_ok W"
  shows "\<exists>W'. internalSchedule_n n rng srt (NewScheduler (in_tree_framework Q ord handle) client) clk W = Ok W'
    \<and> world_ok W' \<and> mqueue W' = mqueue W"
  using assms(4)
proof (induction n arbitrary: W)
  case (Suc n)
  let ?s = "NewScheduler (in_tree_framework Q ord handle) client"
  have "scheduler_env ?s" using assms(3) by (intro scheduler_env_in_tree) (simp_all add: NewScheduler_def)
  from scheduler_env.schedule_returns [OF this assms(1,2) Suc.prems, of "clk n"] obtain W1 where
    W1: "schedule rng srt ?s (clk n) W = Ok W1" "world_ok W1" "keeps W W1" by blast
  with Suc.IH [OF W1(2)] show ?case by (auto simp: keeps_def)
qed simp

theorem scheduling_passes_return_witness:
  "\<exists>W'. internalSchedule_n 3 name_order insertion_sort (two_scheduler store_client) (\<lambda>_ _. 5)
      (two_world [''a/j'' \<mapsto> job]) = Ok W' \<and> world_ok W'"
  using scheduling_passes_return [OF name_order_ok insertion_sort_ok store_client_ok two_world_ok] by blast



definition conflict_client :: "(int, unit) QueueClient" where
  "conflict_client = \<lparr>api_Get = (\<lambda>w ns n. (w, Inr job)), api_Update = (\<lambda>w ns u. (w, Inl ''conflict''))\<rparr>"

definition two_after :: "(int, int ResourceQuota, unit, unit) world" where
  "two_after = (two_world ())\<lparr>objects := store 0 (queue_for two_mq qa) (objects (two_world ())),
     plugins := fst (Reserve int_quantity cpu_order (plugins (two_world ())) job_info),
     vars := [0 \<mapsto> 1], next_var := 1, tasks := [(job_info, 0)]\<rparr>"

lemma two_sorted:
  "SortedQueue (\<lambda>_. [''a'', ''b'']) insertion_sort (mqueue (two_world w), objects (two_world w)) = Ok [0, 1]"
  by (simp add: SortedQueue_def two_world_def ranged_def two_mq_def map_filter_simps deref_def
      PSQ_QueueInfo_def pa_def insertion_sort_def)
    (simp add: qa_def qb_def MultiQueueLess_def sample_queue_def NewQueueInfo_def)

lemma two_filter:
  "Filter int_quantity cpu_order (plugins (two_world w)) job_info = Ok (NewStatus Success '''')"
  by (simp add: Filter_def consumer_namespace_def job_def sample_defs SelectResourceQuota_def
      GetReservedByResourceName_def two_world_def)

lemma two_pass:
  "schedule (\<lambda>_. [''a'', ''b'']) insertion_sort (two_scheduler conflict_client) (\<lambda>_. 5) (two_world ()) = Ok two_after"
  using two_filter [of "()"]
  by (simp add: schedule_def two_sorted)
    (simp add: schedule_round_def two_world_def call_def pa_pop NewScheduler_def store_def
      QueueUnitToKey_def two_after_def)


text \<open>A finding: when \<open>Filter\<close> rejects the popped unit and the API server cannot be read, \<open>ErrorFunc\<close>
  gives up. The unit is then in neither heap of its queue (if it was there once) and no goroutine
  has it; only a later event of the informer can bring it back.\<close>

lemma unreadable_server_drops_unit:
  assumes "world_ok W" "objs (objects W) q = Some p" "0 < PSQ_Length p"
    and "dom (active_units p) \<inter> dom (backoff_units p) = {}"
    and "PSQ_Pop p = Ok (p1, u)"
    and "Filter Q ord (plugins W) u = Ok (NewStatus c m)" "c \<noteq> Success"
    and "api_Get client (api W) (qu_Namespace (Unit u)) (qu_Name (Unit u)) = (w, Inl e)"
  shows "\<exists>W'. schedule_round (NewScheduler (in_tree_framework Q ord handle) client) now v q W = Ok W'
    \<and> tasks W' = tasks W \<and> objs (objects W') q = Some p1
    \<and> info_Name u \<in> dom (active_units p)
    \<and> dom (active_units p1) \<union> dom (backoff_units p1) =
        dom (active_units p) \<union> dom (backoff_units p) - {info_Name u}"
proof -
  have inv: "psq_inv p" using world_okD(2) [OF assms(1,2)] by (simp add: queue_ok_def)
  from psq.pop_guarded [OF inv assms(3)] assms(5) have
    p1: "active_units p (info_Name u) = Some u" "active_units p1 = (active_units p)(info_Name u := None)"
      "backoff_units p1 = backoff_units p" by auto
  have "dom (active_units p1) \<union> dom (backoff_units p1) =
      dom (active_units p) \<union> dom (backoff_units p) - {info_Name u}"
    using p1 assms(4) by (auto simp: disjoint_iff)
  moreover have "schedule_round (NewScheduler (in_tree_framework Q ord handle) client) now v q W =
      Ok (W\<lparr>vars := (vars W)(v \<mapsto> q), objects := store q p1 (objects W), api := w\<rparr>)"
    using assms(2,3,5-8) by (simp add: schedule_round_def call_def NewScheduler_def ErrorFunc_def Let_def)
  ultimately show ?thesis using p1(1) by auto
qed

lemma pa_units: "active_units pa = [''a/j'' \<mapsto> job_info]" "backoff_units pa = Map.empty"
  using psq.add_spec [OF two_new(1) [of qa], of 1 1 job] pa_add two_new(2,3) [of qa] by simp_all

section \<open>Reservations stay within the quotas\<close>

text \<open>A unit whose job lives in the unit's own namespace, and whose request can be ranged over.\<close>

definition local_unit :: "('q ResourceList \<Rightarrow> string list) \<Rightarrow> 'q QueueUnit \<Rightarrow> bool" where
  "local_unit ord u \<longleftrightarrow> ranges ord u \<and> consumer_namespace u = Ok (qu_Namespace u)"

definition local_units :: "('q ResourceList \<Rightarrow> string list) \<Rightarrow> 'q objects \<Rightarrow> bool" where
  "local_units ord w \<longleftrightarrow> (\<forall>a p k x. objs w a = Some p \<longrightarrow> active_units p k = Some x \<or> backoff_units p k = Some x
     \<longrightarrow> local_unit ord (Unit x))"

definition local_client :: "('q ResourceList \<Rightarrow> string list) \<Rightarrow> ('q, 'w) QueueClient \<Rightarrow> bool" where
  "local_client ord c \<longleftrightarrow> (\<forall>w ns n w' u. api_Get c w ns n = (w', Inr u) \<longrightarrow> local_unit ord u)"

definition all_within :: "'q quantity_ops \<Rightarrow> ('q \<Rightarrow> rat) \<Rightarrow> 'q ResourceQuota \<Rightarrow> bool" where
  "all_within Q amount rq \<longleftrightarrow> (\<forall>ns. within_quota Q amount rq ns)"

text \<open>Passing the filter and reserving keeps all namespaces within their quotas.\<close>

lemma reserve_within:
  assumes "quantity_laws Q amount" "local_unit ord (Unit u)" "all_within Q amount rq"
    and "Filter Q ord rq u = Ok (NewStatus Success m)"
  shows "all_within Q amount (fst (Reserve Q ord rq u))"
proof (cases "quRecord rq (QueueUnitToKey u) = None")
  case True
  obtain rq' st where R: "Reserve Q ord rq u = (rq', st)" by force
  have rng: "ranges ord (Unit u)" using assms(2) by (simp add: local_unit_def)
  note F = Reserve_fresh [OF assms(1) rng True R]
  show ?thesis
    unfolding all_within_def
  proof
    fix ns
    show "within_quota Q amount (fst (Reserve Q ord rq u)) ns"
      using Filter_success [OF assms(1) rng assms(4)] assms(2,3) F R
      by (fastforce simp: all_within_def within_quota_def local_unit_def request_def split: option.splits)
  qed
qed (use assms(3) in \<open>simp add: Reserve_recorded\<close>)

lemma local_units_store:
  assumes "local_units ord w"
    and "\<And>k x. active_units p k = Some x \<or> backoff_units p k = Some x \<Longrightarrow> local_unit ord (Unit x)"
  shows "local_units ord (store a p w)"
  using assms by (auto simp: local_units_def)

lemma ErrorFunc_plugins: "ErrorFunc s now u q W = Ok W' \<Longrightarrow> plugins W' = plugins W"
  by (auto simp: ErrorFunc_def Let_def go_bind_eq_Ok split: prod.splits sum.splits)

lemma round_plugins:
  assumes "schedule_round (NewScheduler (in_tree_framework Q ord handle) client) now v q W = Ok W'"
    and "objs (objects W) q = Some p" "PSQ_Pop p = Ok (p1, u)" "unit_ok u" "0 < PSQ_Length p"
  shows "plugins W' = plugins W \<or>
    (\<exists>m. Filter Q ord (plugins W) u = Ok (NewStatus Success m) \<and> plugins W' = fst (Reserve Q ord (plugins W) u))"
proof -
  obtain c m where f: "Filter Q ord (plugins W) u = Ok (NewStatus c m)" using Filter_returns [OF assms(4)] by blast
  show ?thesis
  proof (cases "c = Success \<and> quRecord (plugins W) (QueueUnitToKey u) = None")
    case True
    then have "plugins W' = fst (Reserve Q ord (plugins W) u)"
      using assms(1-3,5) f by (auto simp: schedule_round_def call_def NewScheduler_def Let_def)
    with True f show ?thesis by blast
  next
    case False
    then have "plugins W' = plugins W"
      using assms(1-3,5) f
      by (auto simp: schedule_round_def call_def NewScheduler_def Let_def dest!: ErrorFunc_plugins split: if_splits)
    then show ?thesis by simp
  qed
qed

lemma fate_local:
  assumes "scheduler_env s" "scheduler_env.fate s now v q p1 u W W'" "local_client ord (sch_client s)"
    and "local_units ord (objects W)" "objs (objects W) q = Some p" "psq_inv p" "0 < PSQ_Length p"
    and "PSQ_Pop p = Ok (p1, u)"
  shows "local_units ord (objects W') \<and> local_unit ord (Unit u)"
proof -
  from psq.pop_guarded [OF assms(6,7)] assms(8) have
    p1: "psq_inv p1" "active_units p (info_Name u) = Some u" "active_units p1 = (active_units p)(info_Name u := None)"
      "backoff_units p1 = backoff_units p" by auto
  have here: "local_unit ord (Unit x)" if "active_units p k = Some x \<or> backoff_units p k = Some x" for k x
    using assms(4,5) that by (auto simp: local_units_def)
  then have l1: "local_unit ord (Unit x)" if "active_units p1 k = Some x \<or> backoff_units p1 k = Some x" for k x
    using that p1(3,4) by (auto split: if_splits)
  have l2: "local_unit ord (Unit x)"
    if "AddUnschedulableIfNotPresent p1 (retried now n u) = Ok (p2, None)" "local_unit ord n"
      "active_units p2 k = Some x \<or> backoff_units p2 k = Some x" for p2 n k x
    using psq.requeue_spec [OF p1(1), of "retried now n u"] that l1 [of k x]
    by (auto simp: retried_def split: if_splits)
  have "local_units ord (objects W')"
    using assms(2,3) unfolding scheduler_env.fate_def [OF assms(1)] local_client_def
    by (elim disjE conjE exE) (use l1 l2 local_units_store [OF assms(4)] in metis)+
  with here p1(2) show ?thesis by blast
qed

lemma round_within:
  fixes client :: "('q, 'w) QueueClient" and Q :: "'q quantity_ops"
    and ord :: "'q ResourceList \<Rightarrow> string list" and handle :: 'hd
  defines "s \<equiv> NewScheduler (in_tree_framework Q ord handle) client"
  assumes "quantity_laws Q amount" "client_ok client" "local_client ord client"
    and "world_ok W" "local_units ord (objects W)" "all_within Q amount (plugins W)" "objs (objects W) q \<noteq> None"
  shows "\<exists>W'. schedule_round s now v q W = Ok W' \<and> world_ok W' \<and> keeps W W'
    \<and> local_units ord (objects W') \<and> all_within Q amount (plugins W')"
proof -
  have env: "scheduler_env s" using assms(3) by (intro scheduler_env_in_tree) (simp_all add: s_def NewScheduler_def)
  obtain p where p: "objs (objects W) q = Some p" using assms(8) by blast
  note qok = world_okD(2) [OF assms(5) p]
  show ?thesis
  proof (cases "PSQ_Length p = 0")
    case True
    with scheduler_env.schedule_round_empty [OF env assms(5) p] world_ok_var [OF assms(5,8)] assms(6,7)
    show ?thesis by (auto simp: keeps_def)
  next
    case False
    then have len: "0 < PSQ_Length p" by simp
    from scheduler_env.schedule_round_fate [OF env assms(5) p len, of now v] obtain p1 u W' where
      W': "PSQ_Pop p = Ok (p1, u)" "schedule_round s now v q W = Ok W'" "world_ok W'" "keeps W W'"
        "scheduler_env.fate s now v q p1 u W W'" by blast
    have uok: "unit_ok u" using queue_ok_pop [OF qok len] W'(1) by simp
    have loc: "local_units ord (objects W')" "local_unit ord (Unit u)"
      using fate_local [OF env W'(5) _ assms(6) p _ len W'(1)] assms(4) qok
      by (simp_all add: s_def NewScheduler_def queue_ok_def)
    from round_plugins [OF W'(2) [unfolded s_def] p W'(1) uok len] have "all_within Q amount (plugins W')"
      using reserve_within [OF assms(2) loc(2) assms(7)] assms(7) by auto
    with W' loc show ?thesis by blast
  qed
qed

lemma loop_within:
  fixes client :: "('q, 'w) QueueClient" and Q :: "'q quantity_ops"
    and ord :: "'q ResourceList \<Rightarrow> string list" and handle :: 'hd
  defines "s \<equiv> NewScheduler (in_tree_framework Q ord handle) client"
  assumes "quantity_laws Q amount" "client_ok client" "local_client ord client"
  shows "world_ok W \<Longrightarrow> local_units ord (objects W) \<Longrightarrow> all_within Q amount (plugins W) \<Longrightarrow>
    set qs \<subseteq> dom (objs (objects W)) \<Longrightarrow>
    \<exists>W'. schedule_loop s clk n v qs W = Ok W' \<and> local_units ord (objects W') \<and> all_within Q amount (plugins W')"
proof (induction qs arbitrary: n W)
  case (Cons q qs)
  then have "objs (objects W) q \<noteq> None" by auto
  from round_within [OF assms(2-4) Cons.prems(1-3) this, of handle "clk n" v] obtain W1 where
    W1: "schedule_round s (clk n) v q W = Ok W1" "world_ok W1" "keeps W W1" "local_units ord (objects W1)"
      "all_within Q amount (plugins W1)" unfolding s_def by blast
  have "set qs \<subseteq> dom (objs (objects W1))" using Cons.prems(4) W1(3) by (auto simp: keeps_def)
  from Cons.IH [OF W1(2,4,5) this, of "Suc n"] W1(1) show ?case by simp
qed simp

text \<open>Quota safety of a scheduling pass: if every unit's job lives in the unit's own namespace, and all
  namespaces are within their quotas before the pass, all are within their quotas after it, however
  many queues and units there are.\<close>

theorem pass_within_quotas:
  assumes "range_ok rng" "slice_sort_ok srt" "quantity_laws Q amount" "client_ok client" "local_client ord client"
    and "world_ok W" "local_units ord (objects W)" "all_within Q amount (plugins W)"
  shows "\<exists>W'. schedule rng srt (NewScheduler (in_tree_framework Q ord handle) client) clk W = Ok W'
    \<and> local_units ord (objects W') \<and> all_within Q amount (plugins W')"
proof -
  from SortedQueue_spec [OF assms(1,2) world_okD(1) [OF assms(6)]] obtain as where
    as: "SortedQueue rng srt (mqueue W, objects W) = Ok as" "set as = ran (queueMap (mqueue W))"
    by (auto simp: GetQueueByName_def)
  let ?W = "W\<lparr>next_var := Suc (next_var W)\<rparr>"
  have "world_ok ?W" using assms(6) by (rule world_ok_cong) simp_all
  moreover have "set as \<subseteq> dom (objs (objects ?W))"
    using as(2) world_okD(1) [OF assms(6)] by (fastforce simp: mq_ready_def mq_inv_def map_ok_def ran_def)
  ultimately show ?thesis
    using loop_within [OF assms(3-5), of ?W as handle clk 0 "next_var W"] assms(7,8) as(1)
    by (auto simp: schedule_def)
qed

text \<open>A server that holds only the unit of the examples.\<close>

definition job_client :: "(int, unit) QueueClient" where
  "job_client = \<lparr>api_Get = (\<lambda>w ns n. (w, if ns = ''a'' \<and> n = ''j'' then Inr job else Inl ''not found'')),
     api_Update = (\<lambda>w ns u. (w, Inr u))\<rparr>"

lemma job_local: "local_unit cpu_order job"
  by (simp add: local_unit_def job_def sample_defs ranges_def is_range_def consumer_namespace_def)

lemma job_client_ok: "client_ok job_client" "local_client cpu_order job_client"
  using job_local
  by (auto simp: client_ok_def local_client_def job_client_def split: if_splits)
     (simp_all add: job_def sample_unit_def)

theorem pass_within_quotas_witness:
  "\<exists>W'. schedule name_order insertion_sort (two_scheduler job_client) (\<lambda>_. 5) (two_world ()) = Ok W'
    \<and> all_within int_quantity of_int (plugins W')"
proof -
  have "local_units cpu_order (objects (two_world ()))"
    using pa_units two_new [of qb] job_local
    by (auto simp: local_units_def two_world_def NewQueueUnitInfo_def split: if_splits)
  moreover have "all_within int_quantity of_int (plugins (two_world ()))"
    by (auto simp: all_within_def within_quota_def two_world_def SelectResourceQuota_def amount_defs
        sample_defs split: if_splits)
  ultimately show ?thesis
    using pass_within_quotas [OF name_order_ok insertion_sort_ok int_quantity_laws job_client_ok two_world_ok]
    by blast
qed

end
