(* ===== verification/Scheduler_Progress.thy ===== *)
theory Scheduler_Progress
  imports Scheduler_Props
begin

text \<open>
  Progress of the scheduler: a pass takes exactly one unit from every queue that has a ready one,
  so a queue of \<open>n\<close> ready units is empty after \<open>n\<close> passes, and no queue is starved by another.
\<close>

definition ready_at :: "('q, 's, 'hd, 'w) world \<Rightarrow> addr \<Rightarrow> nat" where
  "ready_at W a = (case objs (objects W) a of None \<Rightarrow> 0 | Some p \<Rightarrow> PSQ_Length p)"

lemma pop_length:
  assumes "psq_inv p" "0 < PSQ_Length p" "PSQ_Pop p = Ok (p1, u)"
  shows "Suc (PSQ_Length p1) = PSQ_Length p"
proof -
  from psq.pop_guarded [OF assms(1,2)] assms(3) have "psq_inv p1" "active_units p (info_Name u) = Some u"
    "active_units p1 = (active_units p)(info_Name u := None)" by auto
  with active.heap.pop_len [of "psq_items p" u "psq_items p1"] assms(1) show ?thesis
    by (simp add: PSQ_Length_def active_units_def psq_invD(1))
qed

lemma requeue_length:
  assumes "AddUnschedulableIfNotPresent p x = Ok (p', err)"
  shows "PSQ_Length p' = PSQ_Length p"
  using assms by (auto simp: AddUnschedulableIfNotPresent_def PSQ_Length_def go_simps split: if_splits)

context scheduler_env
begin

lemma round_ready:
  assumes "world_ok W" "objs (objects W) q \<noteq> None"
  shows "\<exists>W'. schedule_round s now v q W = Ok W' \<and> world_ok W' \<and> keeps W W'
    \<and> ready_at W' = (ready_at W)(q := ready_at W q - 1)"
proof -
  obtain p where p: "objs (objects W) q = Some p" using assms(2) by blast
  note qok = world_okD(2) [OF assms(1) p]
  show ?thesis
  proof (cases "PSQ_Length p = 0")
    case True
    with schedule_round_empty [OF assms(1) p] world_ok_var [OF assms] p show ?thesis
      by (auto simp: keeps_def ready_at_def fun_eq_iff)
  next
    case False
    from schedule_round_fate [OF assms(1) p, of now v] False obtain p1 u W' where
      W': "PSQ_Pop p = Ok (p1, u)" "schedule_round s now v q W = Ok W'" "world_ok W'" "keeps W W'"
        "fate now v q p1 u W W'" by auto
    have "Suc (PSQ_Length p1) = PSQ_Length p"
      using pop_length [OF _ _ W'(1)] qok False by (simp add: queue_ok_def)
    moreover from W'(5) obtain p2 where "objects W' = store q p2 (objects W)" "PSQ_Length p2 = PSQ_Length p1"
      unfolding fate_def using requeue_length by blast
    ultimately have "ready_at W' = (ready_at W)(q := ready_at W q - 1)"
      using p by (auto simp: ready_at_def fun_eq_iff)
    with W' show ?thesis by blast
  qed
qed

lemma loop_ready:
  "world_ok W \<Longrightarrow> set qs \<subseteq> dom (objs (objects W)) \<Longrightarrow> distinct qs \<Longrightarrow>
   \<exists>W'. schedule_loop s clk n v qs W = Ok W' \<and> world_ok W' \<and> keeps W W'
     \<and> (\<forall>a. ready_at W' a = (if a \<in> set qs then ready_at W a - 1 else ready_at W a))"
proof (induction qs arbitrary: n W)
  case (Cons q qs)
  then have "objs (objects W) q \<noteq> None" by auto
  from round_ready [OF Cons.prems(1) this, of "clk n" v] obtain W1 where
    W1: "schedule_round s (clk n) v q W = Ok W1" "world_ok W1" "keeps W W1"
      "ready_at W1 = (ready_at W)(q := ready_at W q - 1)" by blast
  have "set qs \<subseteq> dom (objs (objects W1))" using Cons.prems(2) W1(3) by (auto simp: keeps_def)
  from Cons.IH [OF W1(2) this, of "Suc n"] Cons.prems(3) obtain W2 where
    "schedule_loop s clk (Suc n) v qs W1 = Ok W2" "world_ok W2" "keeps W1 W2"
    "\<forall>a. ready_at W2 a = (if a \<in> set qs then ready_at W1 a - 1 else ready_at W1 a)" by auto
  with W1 Cons.prems(3) show ?case by (auto intro: keeps_trans)
qed simp

lemma pass_ready:
  assumes "range_ok rng" "slice_sort_ok srt" "world_ok W"
  shows "\<exists>W'. schedule rng srt s clk W = Ok W' \<and> world_ok W' \<and> keeps W W'
    \<and> (\<forall>a \<in> ran (queueMap (mqueue W)). ready_at W' a = ready_at W a - 1)"
proof -
  from SortedQueue_spec [OF assms(1,2) world_okD(1) [OF assms(3)]] obtain qs where
    qs: "SortedQueue rng srt (mqueue W, objects W) = Ok qs" "distinct qs" "set qs = ran (queueMap (mqueue W))"
    by (auto simp: GetQueueByName_def)
  let ?W = "W\<lparr>next_var := Suc (next_var W)\<rparr>"
  have "world_ok ?W" using assms(3) by (rule world_ok_cong) simp_all
  moreover have "set qs \<subseteq> dom (objs (objects ?W))"
    using qs(3) world_okD(1) [OF assms(3)] by (fastforce simp: mq_ready_def mq_inv_def map_ok_def ran_def)
  ultimately show ?thesis
    using loop_ready [of ?W qs clk 0 "next_var W"] qs
    by (auto simp: schedule_def keeps_def ready_at_def)
qed

lemma passes_ready:
  assumes "range_ok rng" "slice_sort_ok srt"
  shows "world_ok W \<Longrightarrow> \<exists>W'. internalSchedule_n n rng srt s clk W = Ok W' \<and> keeps W W'
    \<and> (\<forall>a \<in> ran (queueMap (mqueue W)). ready_at W' a = ready_at W a - n)"
proof (induction n arbitrary: W)
  case (Suc n)
  from pass_ready [OF assms Suc.prems, of "clk n"] obtain W1 where
    W1: "schedule rng srt s (clk n) W = Ok W1" "world_ok W1" "keeps W W1"
      "\<forall>a \<in> ran (queueMap (mqueue W)). ready_at W1 a = ready_at W a - 1" by blast
  moreover from W1(3) have "mqueue W1 = mqueue W" by (simp add: keeps_def)
  ultimately show ?case using Suc.IH [OF W1(2)] keeps_trans [OF W1(3)] by fastforce
qed simp

end

text \<open>C17. Liveness: with no events and no flushes in between, every pass takes exactly one unit from each
  queue of the collection that has a ready one. After \<open>n\<close> passes a queue with at most \<open>n\<close> ready
  units has none left: no unit waits for ever behind those of its own or of another queue.\<close>

theorem passes_drain_queues:
  assumes "range_ok rng" "slice_sort_ok srt" "client_ok client" "world_ok W"
  shows "\<exists>W'. internalSchedule_n n rng srt (NewScheduler (in_tree_framework Q ord handle) client) clk W = Ok W'
    \<and> (\<forall>a p. a \<in> ran (queueMap (mqueue W)) \<and> objs (objects W) a = Some p \<longrightarrow>
         (\<exists>p'. objs (objects W') a = Some p' \<and> PSQ_Length p' = PSQ_Length p - n))"
proof -
  let ?s = "NewScheduler (in_tree_framework Q ord handle) client"
  have env: "scheduler_env ?s" using assms(3) by (intro scheduler_env_in_tree) (simp_all add: NewScheduler_def)
  from scheduler_env.passes_ready [OF env assms(1,2,4)] obtain W' where
    W': "internalSchedule_n n rng srt ?s clk W = Ok W'" "keeps W W'"
      "\<forall>a \<in> ran (queueMap (mqueue W)). ready_at W' a = ready_at W a - n" by blast
  have "\<exists>p'. objs (objects W') a = Some p' \<and> PSQ_Length p' = PSQ_Length p - n"
    if "a \<in> ran (queueMap (mqueue W))" "objs (objects W) a = Some p" for a p
  proof -
    have "a \<in> dom (objs (objects W'))" using W'(2) that(2) by (auto simp: keeps_def)
    then obtain p' where "objs (objects W') a = Some p'" by blast
    with bspec [OF W'(3) that(1)] that(2) show ?thesis by (simp add: ready_at_def)
  qed
  with W'(1) show ?thesis by blast
qed

theorem passes_drain_queues_witness:
  "\<exists>W' p'. internalSchedule_n 1 name_order insertion_sort (two_scheduler store_client) (\<lambda>_ _. 5)
      (two_world [''a/j'' \<mapsto> job]) = Ok W' \<and> objs (objects W') 0 = Some p' \<and> PSQ_Length p' = 0"
proof -
  have "0 \<in> ran (queueMap (mqueue (two_world [''a/j'' \<mapsto> job])))"
    by (auto simp: two_world_def two_mq_def ran_def)
  moreover have "objs (objects (two_world [''a/j'' \<mapsto> job])) 0 = Some pa" by (simp add: two_world_def)
  ultimately show ?thesis
    using passes_drain_queues [OF name_order_ok insertion_sort_ok store_client_ok two_world_ok,
        of 1 int_quantity cpu_order "()" "\<lambda>_ _. 5" "[''a/j'' \<mapsto> job]"] two_lengths(2)
    by (metis diff_self_eq_0)
qed

end
