(* ===== verification/Controller.thy ===== *)
theory Controller
  imports Scheduler_Contract
begin

text \<open>
  The model of \<^verbatim>\<open>pkg/controller\<close>: the event handlers that keep the queues and the
  reservations in step with the API server (\<^verbatim>\<open>eventhandler.go\<close>) and the constructor
  (\<^verbatim>\<open>controller.go\<close>). An informer calls its handlers with objects of any type, so the
  handlers assert the type, which panics on another one; the filter functions that stand before
  them let only the expected types pass.

  \<^verbatim>\<open>cache.FilteringResourceEventHandler\<close> belongs to client-go: it is the parameter
  \<open>dispatch\<close>, which turns a notification into the call of a nested handler, and \<open>filtering_ok\<close>
  is its documentation: an object that starts passing the filter is an add, one that stops
  passing it is a delete.
\<close>

section \<open>Events\<close>

text \<open>What an informer passes: units, queues, the marker of a deletion it has missed.\<close>

datatype 'q event_obj =
    UnitObj "'q QueueUnit" | QueueObj Queue | DeletedFinalStateUnknown string

datatype 'q notification =
    OnAdd "'q event_obj" | OnUpdate "'q event_obj" "'q event_obj" | OnDelete "'q event_obj"

type_synonym 'q dispatcher = "('q event_obj \<Rightarrow> bool) \<Rightarrow> 'q notification \<Rightarrow> 'q notification option"

definition filtering_ok :: "'q dispatcher \<Rightarrow> bool" where
  "filtering_ok dispatch \<longleftrightarrow> (\<forall>f x y.
     dispatch f (OnAdd x) = (if f x then Some (OnAdd x) else None) \<and>
     dispatch f (OnDelete x) = (if f x then Some (OnDelete x) else None) \<and>
     dispatch f (OnUpdate x y) =
       (if f x \<and> f y then Some (OnUpdate x y) else if f y then Some (OnAdd y)
        else if f x then Some (OnDelete x) else None))"

definition standard_dispatch :: "'q dispatcher" where
  "standard_dispatch f n =
     (case n of
        OnAdd x \<Rightarrow> if f x then Some (OnAdd x) else None
      | OnDelete x \<Rightarrow> if f x then Some (OnDelete x) else None
      | OnUpdate x y \<Rightarrow>
          if f x \<and> f y then Some (OnUpdate x y) else if f y then Some (OnAdd y)
          else if f x then Some (OnDelete x) else None)"

lemma standard_dispatch_ok: "filtering_ok standard_dispatch"
  by (simp add: filtering_ok_def standard_dispatch_def)

text \<open>The filter functions of \<^verbatim>\<open>addAllEventHandlers\<close>.\<close>

fun queued_filter :: "'q event_obj \<Rightarrow> bool" where
  "queued_filter (UnitObj qu) = (if Phase (qu_Status qu) \<noteq> Dequeued then True else False)"
| "queued_filter _ = False"

fun dequeued_filter :: "'q event_obj \<Rightarrow> bool" where
  "dequeued_filter (UnitObj qu) = (if Phase (qu_Status qu) = Dequeued then True else False)"
| "dequeued_filter _ = False"

fun queue_filter :: "'q event_obj \<Rightarrow> bool" where
  "queue_filter (QueueObj q) = True"
| "queue_filter _ = False"

text \<open>The type assertions \<^verbatim>\<open>obj.(*v1alpha1.QueueUnit)\<close> and \<^verbatim>\<open>obj.(*v1alpha1.Queue)\<close>.\<close>

fun as_unit :: "'q event_obj \<Rightarrow> 'q QueueUnit go" where
  "as_unit (UnitObj u) = Ok u"
| "as_unit _ = Panic TypeAssertionFailed"

fun as_queue :: "'q event_obj \<Rightarrow> Queue go" where
  "as_queue (QueueObj q) = Ok q"
| "as_queue _ = Panic TypeAssertionFailed"

section \<open>Handlers\<close>

type_synonym ('q, 's, 'hd, 'w) handler = "'q event_obj \<Rightarrow> ('q, 's, 'hd, 'w) world \<Rightarrow> ('q, 's, 'hd, 'w) world go"

definition mq_of :: "('q, 's, 'hd, 'w) world \<Rightarrow> ('q, 's, 'hd) mq_state" where
  "mq_of W = (mqueue W, objects W)"

definition set_mq :: "('q, 's, 'hd) mq_state \<Rightarrow> ('q, 's, 'hd, 'w) world \<Rightarrow> ('q, 's, 'hd, 'w) world" where
  "set_mq m W = W\<lparr>mqueue := fst m, objects := snd m\<rparr>"

definition AddQueue :: "range_order \<Rightarrow> ('q, 's, 'hd, 'w) handler" where
  "AddQueue rng x W =
     go_bind (as_queue x) (\<lambda>q.
       let queueName = q_Namespace q in
       if GetQueueByName (mq_of W) queueName \<noteq> None then Ok W
       else go_bind (MQ_Add rng q (mq_of W)) (\<lambda>m. Ok (set_mq m W)))"

definition UpdateQueue ::
  "'q event_obj \<Rightarrow> 'q event_obj \<Rightarrow> ('q, 's, 'hd, 'w) world \<Rightarrow> ('q, 's, 'hd, 'w) world go" where
  "UpdateQueue x y W =
     go_bind (as_queue x) (\<lambda>oldQ. go_bind (as_queue y) (\<lambda>newQ.
       Ok (set_mq (MQ_Update oldQ newQ (mq_of W)) W)))"

definition DeleteQueue :: "('q, 's, 'hd, 'w) handler" where
  "DeleteQueue x W = go_bind (as_queue x) (\<lambda>q. Ok (set_mq (MQ_Delete q (mq_of W)) W))"

text \<open>A method of the queue of a unit's consumer; an unknown namespace is only logged.\<close>

definition on_queue ::
  "'q QueueUnit \<Rightarrow> ('q PrioritySchedulingQueue \<Rightarrow> ('q PrioritySchedulingQueue \<times> 'q unit_error option) go)
   \<Rightarrow> ('q, 's, 'hd, 'w) world \<Rightarrow> ('q, 's, 'hd, 'w) world go" where
  "on_queue u f W =
     go_bind (consumer_namespace u) (\<lambda>queueName.
       case GetQueueByName (mq_of W) queueName of
         None \<Rightarrow> Ok W
       | Some q \<Rightarrow> go_bind (call q f (objects W)) (\<lambda>(objs, err). Ok (W\<lparr>objects := objs\<rparr>)))"

definition AddQueueUnit :: "time \<Rightarrow> time \<Rightarrow> ('q, 's, 'hd, 'w) handler" where
  "AddQueueUnit now1 now2 x W =
     go_bind (as_unit x) (\<lambda>unit. on_queue unit (\<lambda>q. PSQ_Add now1 now2 q unit) W)"

definition DeleteQueueUnit :: "('q, 's, 'hd, 'w) handler" where
  "DeleteQueueUnit x W = go_bind (as_unit x) (\<lambda>unit. on_queue unit (\<lambda>q. PSQ_Delete q unit) W)"

definition UpdateQueueUnit ::
  "time \<Rightarrow> time \<Rightarrow> 'q event_obj \<Rightarrow> 'q event_obj \<Rightarrow> ('q, 's, 'hd, 'w) world \<Rightarrow> ('q, 's, 'hd, 'w) world go" where
  "UpdateQueueUnit now1 now2 x y W =
     go_bind (as_unit x) (\<lambda>oldQu. go_bind (as_unit y) (\<lambda>newQu.
       on_queue newQu (\<lambda>q. PSQ_Update now1 now2 q oldQu newQu) W))"

text \<open>The status of the reservation is ignored.\<close>

definition AddDequeuedQueueUnit ::
  "('q, 's, 'hd) frameworkImpl \<Rightarrow> time \<Rightarrow> time \<Rightarrow> ('q, 's, 'hd, 'w) handler" where
  "AddDequeuedQueueUnit fw now1 now2 x W =
     go_bind (as_unit x) (\<lambda>unit.
     go_bind (RunReservePluginsReserve fw (plugins W) (NewQueueUnitInfo now1 now2 unit)) (\<lambda>(pl, status).
       Ok (W\<lparr>plugins := pl\<rparr>)))"

definition DeleteDequeuedQueueUnit ::
  "('q, 's, 'hd) frameworkImpl \<Rightarrow> time \<Rightarrow> time \<Rightarrow> ('q, 's, 'hd, 'w) handler" where
  "DeleteDequeuedQueueUnit fw now1 now2 x W =
     go_bind (as_unit x) (\<lambda>unit.
     go_bind (RunReservePluginsUnreserve fw (plugins W) (NewQueueUnitInfo now1 now2 unit)) (\<lambda>pl.
       Ok (W\<lparr>plugins := pl\<rparr>)))"

text \<open>
  The three registrations of \<^verbatim>\<open>addAllEventHandlers\<close>. Each has its own listener, so the two of the
  unit informer see the same notifications independently of each other. The second one of them has no
  \<^verbatim>\<open>UpdateFunc\<close>.
\<close>

definition queued_listener ::
  "'q dispatcher \<Rightarrow> time \<Rightarrow> time \<Rightarrow> 'q notification \<Rightarrow> ('q, 's, 'hd, 'w) world \<Rightarrow> ('q, 's, 'hd, 'w) world go" where
  "queued_listener dispatch now1 now2 n W =
     (case dispatch queued_filter n of
        None \<Rightarrow> Ok W
      | Some (OnAdd x) \<Rightarrow> AddQueueUnit now1 now2 x W
      | Some (OnUpdate x y) \<Rightarrow> UpdateQueueUnit now1 now2 x y W
      | Some (OnDelete x) \<Rightarrow> DeleteQueueUnit x W)"

definition dequeued_listener ::
  "'q dispatcher \<Rightarrow> ('q, 's, 'hd) frameworkImpl \<Rightarrow> time \<Rightarrow> time \<Rightarrow> 'q notification
   \<Rightarrow> ('q, 's, 'hd, 'w) world \<Rightarrow> ('q, 's, 'hd, 'w) world go" where
  "dequeued_listener dispatch fw now1 now2 n W =
     (case dispatch dequeued_filter n of
        None \<Rightarrow> Ok W
      | Some (OnAdd x) \<Rightarrow> AddDequeuedQueueUnit fw now1 now2 x W
      | Some (OnUpdate x y) \<Rightarrow> Ok W
      | Some (OnDelete x) \<Rightarrow> DeleteDequeuedQueueUnit fw now1 now2 x W)"

definition queue_listener ::
  "'q dispatcher \<Rightarrow> range_order \<Rightarrow> 'q notification \<Rightarrow> ('q, 's, 'hd, 'w) world \<Rightarrow> ('q, 's, 'hd, 'w) world go" where
  "queue_listener dispatch rng n W =
     (case dispatch queue_filter n of
        None \<Rightarrow> Ok W
      | Some (OnAdd x) \<Rightarrow> AddQueue rng x W
      | Some (OnUpdate x y) \<Rightarrow> UpdateQueue x y W
      | Some (OnDelete x) \<Rightarrow> DeleteQueue x W)"

section \<open>The constructor\<close>

text \<open>
  \<^verbatim>\<open>NewController\<close> on the program's registry: a failing framework ends the process. The event
  broadcaster and the informers' goroutines are outside the model; the handlers are registered
  with the informers before these run.
\<close>

definition NewController ::
  "string list \<Rightarrow> ('q, 's, 'hd) Registry \<Rightarrow> 'hd \<Rightarrow> 's \<Rightarrow> ('q, 'w) QueueClient \<Rightarrow> 'w \<Rightarrow> int64 \<Rightarrow> int64
   \<Rightarrow> (('q, 's, 'hd, 'w) Scheduler \<times> ('q, 's, 'hd, 'w) world) go" where
  "NewController ks r handle s0 client w podInitialBackoffSeconds podMaxBackoffSeconds =
     (case NewFramework ks r handle s0 of
        Inl err \<Rightarrow> Panic ProcessExit
      | Inr (fw, s) \<Rightarrow>
          go_bind (NewMultiSchedulingQueue fw podInitialBackoffSeconds podMaxBackoffSeconds) (\<lambda>mq.
          Ok (NewScheduler fw client,
              \<lparr>mqueue = mq, objects = \<lparr>objs = Map.empty, next_addr = 0, flushers = []\<rparr>, plugins = s,
               api = w, vars = Map.empty, next_var = 0, tasks = []\<rparr>)))"

text \<open>\<^verbatim>\<open>Start\<close>: the queues would be closed once the scheduler has returned.\<close>

definition Controller_Start ::
  "range_order \<Rightarrow> slice_sort \<Rightarrow> ('q, 's, 'hd, 'w) Scheduler \<Rightarrow> (nat \<Rightarrow> nat \<Rightarrow> time)
   \<Rightarrow> ('q, 's, 'hd, 'w) world \<Rightarrow> ('q, 's, 'hd, 'w) world go option" where
  "Controller_Start rng srt s clk W =
     (case Scheduler_Start rng srt s clk W of
        None \<Rightarrow> None
      | Some r \<Rightarrow> Some (go_bind r (\<lambda>W'.
          go_bind (MQ_Close rng (mqueue W') (objects W')) (\<lambda>objs. Ok (W'\<lparr>objects := objs\<rparr>)))))"

lemmas handler_defs = AddQueue_def UpdateQueue_def DeleteQueue_def AddQueueUnit_def DeleteQueueUnit_def
  UpdateQueueUnit_def AddDequeuedQueueUnit_def DeleteDequeuedQueueUnit_def

end
