(* ===== verification/Controller_Contract.thy ===== *)
theory Controller_Contract
  imports Controller
begin

text \<open>
  Every listener of the controller returns and keeps the world well-formed, for events whose
  units name a consumer and whose queues have the registered policy (\<open>event_ok\<close>). The three
  listeners share this contract, locale \<open>listener\<close>, whose lemma is that no sequence of events
  panics; it is interpreted on each of them.
\<close>

section \<open>Proper events\<close>

fun obj_ok :: "'q event_obj \<Rightarrow> bool" where
  "obj_ok (UnitObj u) = (ConsumerRef (qu_Spec u) \<noteq> None)"
| "obj_ok (QueueObj q) = (QueuePolicy q = Priority_Name)"
| "obj_ok (DeletedFinalStateUnknown k) = True"

fun event_ok :: "'q notification \<Rightarrow> bool" where
  "event_ok (OnAdd x) = obj_ok x"
| "event_ok (OnUpdate x y) = (obj_ok x \<and> obj_ok y)"
| "event_ok (OnDelete x) = obj_ok x"

text \<open>The world of the program: the policy "Priority" is registered.\<close>

definition system_ok :: "('q, 's, 'hd, 'w) world \<Rightarrow> bool" where
  "system_ok W \<longleftrightarrow> world_ok W \<and> QueueSortFuncMap (mq_fw (mqueue W)) Priority_Name = Some QueueLess"

text \<open>The step of a goroutine removes no queue from the store and no loop variable.\<close>

definition extends :: "('q, 's, 'hd, 'w) world \<Rightarrow> ('q, 's, 'hd, 'w) world \<Rightarrow> bool" where
  "extends W W' \<longleftrightarrow> dom (objs (objects W)) \<subseteq> dom (objs (objects W')) \<and> dom (vars W) \<subseteq> dom (vars W')"

lemma extends_refl [simp]: "extends W W"
  by (simp add: extends_def)

lemma keeps_extends: "keeps W W' \<Longrightarrow> extends W W'"
  by (simp add: keeps_def extends_def)

section \<open>Queue events\<close>

lemma queue_ok_run [simp]: "queue_ok (SetRunStatus p b) = queue_ok p"
  by (simp add: queue_ok_def SetRunStatus_def psq_inv_def active_units_def backoff_units_def)

lemma queue_ok_New:
  assumes "QueueSortFuncMap (mq_fw mq) (QueuePolicy q) = Some QueueLess"
  shows "queue_ok (queue_for mq q)"
  using New_inv [OF assms] by (simp add: queue_ok_def queue_for_def)

text \<open>Replacing the collection by one with the same or more queues keeps the rest of the world intact.\<close>

lemma world_ok_set_mq:
  assumes "world_ok W" "mq_ready m" "queues_ok (snd m)" "dom (objs (objects W)) \<subseteq> dom (objs (snd m))"
  shows "world_ok (set_mq m W)"
  using assms by (fastforce simp: world_ok_def set_mq_def)

lemma system_ok_Update:
  assumes "system_ok W" "QueuePolicy q = Priority_Name"
  shows "system_ok (set_mq (MQ_Update old q (mq_of W)) W) \<and> extends W (set_mq (MQ_Update old q (mq_of W)) W)"
proof -
  let ?m = "MQ_Update old q (mq_of W)"
  have inv: "mq_inv (mqueue W, objects W)" and ls: "mq_lessFunc (mqueue W) = MultiQueueLess"
    and qs: "queues_ok (objects W)" and wok: "world_ok W"
    using assms(1) by (simp_all add: system_ok_def world_ok_def mq_ready_def)
  note upd = MQ_Update_spec [OF inv] 
  have new: "queue_ok (queue_for (mqueue W) q)"
    using assms by (intro queue_ok_New) (simp add: system_ok_def)
  have "world_ok (set_mq ?m W)"
    using upd(1,2) [of old q] ls qs new fresh_addr [OF inv]
    by (intro world_ok_set_mq [OF wok]) (auto simp: mq_of_def mq_ready_def queues_ok_def)
  with assms(1) upd(1) [of old q] show ?thesis
    by (auto simp: system_ok_def set_mq_def mq_of_def extends_def)
qed

lemma system_ok_Add:
  assumes "range_ok rng" "system_ok W" "QueuePolicy q = Priority_Name"
  shows "\<exists>m. MQ_Add rng q (mq_of W) = Ok m \<and> system_ok (set_mq m W) \<and> extends W (set_mq m W)"
proof -
  have inv: "mq_inv (mqueue W, objects W)" using assms(2) by (simp add: system_ok_def world_ok_def mq_ready_def)
  from MQ_Add_spec [OF assms(1) inv, of q] obtain mq' w' w1 where
    add: "MQ_Add rng q (mqueue W, objects W) = Ok (mq', w')" "mq_inv (mq', w')"
      "(mq', w1) = MQ_Update q q (mqueue W, objects W)" "started (ran (queueMap mq')) w1 w'" by blast
  have U: "system_ok (set_mq (mq', w1) W)" and ext: "extends W (set_mq (mq', w1) W)"
    using system_ok_Update [OF assms(2,3), of q] add(3) by (simp_all add: mq_of_def)
  have "queues_ok w'" and dom: "dom (objs w') = dom (objs w1)"
    using U add(4) by (auto simp: system_ok_def world_ok_def set_mq_def queues_ok_def started_def split: if_splits)
  moreover have "mq_lessFunc mq' = MultiQueueLess"
    using U by (simp add: system_ok_def world_ok_def mq_ready_def set_mq_def)
  ultimately have "world_ok (set_mq (mq', w') (set_mq (mq', w1) W))"
    using world_ok_set_mq [of "set_mq (mq', w1) W" "(mq', w')"] U add(2)
    by (simp add: system_ok_def mq_ready_def set_mq_def)
  moreover have "extends W (set_mq (mq', w') W)" using ext dom by (simp add: extends_def set_mq_def)
  ultimately show ?thesis using U add(1) by (simp add: system_ok_def set_mq_def mq_of_def)
qed

lemma system_ok_Delete:
  assumes "system_ok W"
  shows "system_ok (set_mq (MQ_Delete q (mq_of W)) W) \<and> extends W (set_mq (MQ_Delete q (mq_of W)) W)"
proof -
  have "world_ok W" and inv: "mq_inv (mqueue W, objects W)"
    using assms by (simp_all add: system_ok_def world_ok_def mq_ready_def)
  with MQ_Delete_inv [OF inv, of q] assms show ?thesis
    by (simp add: system_ok_def world_ok_def mq_ready_def set_mq_def mq_of_def MQ_Delete_def extends_def)
qed

section \<open>Unit events\<close>

text \<open>A method that keeps queues well-formed may run on the queue of any unit.\<close>

lemma on_queue_ok:
  assumes "system_ok W" "ConsumerRef (qu_Spec u) \<noteq> None"
    and "\<And>p. queue_ok p \<Longrightarrow> \<exists>p'. f p = Ok (p', None) \<and> queue_ok p' \<and> same_queue p p'"
  shows "\<exists>W'. on_queue u f W = Ok W' \<and> system_ok W' \<and> extends W W'"
proof -
  obtain ns where ns: "consumer_namespace u = Ok ns" using assms(2) by (auto simp: consumer_namespace_def)
  show ?thesis
  proof (cases "queueMap (mqueue W) ns")
    case None
    with ns assms(1) show ?thesis by (simp add: on_queue_def GetQueueByName_def mq_of_def)
  next
    case (Some a)
    have wok: "world_ok W" using assms(1) by (simp add: system_ok_def)
    then obtain p where p: "objs (objects W) a = Some p"
      using Some by (fastforce simp: world_ok_def mq_ready_def mq_inv_def map_ok_def)
    from assms(3) [OF world_okD(2) [OF wok p]] obtain p' where
      p': "f p = Ok (p', None)" "queue_ok p'" "same_queue p p'" by blast
    have "on_queue u f W = Ok (W\<lparr>objects := store a p' (objects W)\<rparr>)"
      using ns Some p p'(1) by (simp add: on_queue_def GetQueueByName_def mq_of_def call_def)
    with world_ok_store [OF wok p p'(2,3)] assms(1) show ?thesis
      by (auto simp: system_ok_def extends_def)
  qed
qed

lemma queue_ok_add:
  assumes "queue_ok p" "ConsumerRef (qu_Spec u) \<noteq> None"
  shows "\<exists>p'. PSQ_Add t1 t2 p u = Ok (p', None) \<and> queue_ok p' \<and> same_queue p p'"
proof -
  have "psq_inv p" using assms(1) by (simp add: queue_ok_def)
  from psq.add_spec [OF this, of t1 t2 u] assms show ?thesis
    by (fastforce simp: queue_ok_def unit_ok_def NewQueueUnitInfo_def split: if_splits)
qed

lemma queue_ok_delete:
  assumes "queue_ok p"
  shows "\<exists>p'. PSQ_Delete p u = Ok (p', None) \<and> queue_ok p' \<and> same_queue p p'"
proof -
  have "psq_inv p" using assms by (simp add: queue_ok_def)
  from psq.delete_spec [OF this, of u] obtain p' where
    "PSQ_Delete p u = Ok (p', None)" "psq_inv p'" "same_queue p p'"
    "active_units p' = (active_units p)(unit_key u := None)"
    "backoff_units p' = (if active_units p (unit_key u) = None then (backoff_units p)(unit_key u := None)
       else backoff_units p)" by blast
  with assms show ?thesis by (auto simp: queue_ok_def split: if_splits)
qed

lemma queue_ok_update:
  assumes "queue_ok p" "ConsumerRef (qu_Spec u) \<noteq> None"
  shows "\<exists>p'. PSQ_Update t1 t2 p old u = Ok (p', None) \<and> queue_ok p' \<and> same_queue p p'"
proof -
  have new: "unit_ok (NewQueueUnitInfo t1 t2 u)" using assms(2) by (simp add: unit_ok_def NewQueueUnitInfo_def)
  have "psq_inv p" using assms(1) by (simp add: queue_ok_def)
  from psq.update_spec [OF this, of t1 t2 old u] obtain p' where
    "PSQ_Update t1 t2 p old u = Ok (p', None)" "psq_inv p'" "same_queue p p'"
    "active_units p' = (if active_units p (unit_key u) = None then active_units p
       else (active_units p)(unit_key u \<mapsto> NewQueueUnitInfo t1 t2 u))"
    "backoff_units p' = (if active_units p (unit_key u) = None \<and> backoff_units p (unit_key u) \<noteq> None
       then (backoff_units p)(unit_key u \<mapsto> NewQueueUnitInfo t1 t2 u) else backoff_units p)" by blast
  with assms(1) new show ?thesis by (auto simp: queue_ok_def split: if_splits)
qed

lemma unit_handlers_ok:
  assumes "system_ok W" "obj_ok (UnitObj u)"
  shows "\<exists>W'. AddQueueUnit t1 t2 (UnitObj u) W = Ok W' \<and> system_ok W' \<and> extends W W'"
    "\<exists>W'. UpdateQueueUnit t1 t2 (UnitObj old) (UnitObj u) W = Ok W' \<and> system_ok W' \<and> extends W W'"
    "\<exists>W'. DeleteQueueUnit (UnitObj u) W = Ok W' \<and> system_ok W' \<and> extends W W'"
  using assms by (simp_all add: handler_defs on_queue_ok queue_ok_add queue_ok_update queue_ok_delete)

lemma queue_handlers_ok:
  assumes "system_ok W" "obj_ok (QueueObj q)"
  shows "range_ok rng \<Longrightarrow> \<exists>W'. AddQueue rng (QueueObj q) W = Ok W' \<and> system_ok W' \<and> extends W W'"
    "\<exists>W'. UpdateQueue (QueueObj old) (QueueObj q) W = Ok W' \<and> system_ok W' \<and> extends W W'"
    "\<exists>W'. DeleteQueue (QueueObj q) W = Ok W' \<and> system_ok W' \<and> extends W W'"
  using assms system_ok_Add [of rng W q]
  by (auto simp: handler_defs Let_def system_ok_Update system_ok_Delete)

section \<open>The contract of the listeners\<close>

locale listener =
  fixes step :: "'q notification \<Rightarrow> ('q, 's, 'hd, 'w) world \<Rightarrow> ('q, 's, 'hd, 'w) world go"
  assumes step_returns: "system_ok W \<Longrightarrow> event_ok n \<Longrightarrow> \<exists>W'. step n W = Ok W' \<and> system_ok W' \<and> extends W W'"
begin

fun step_all :: "'q notification list \<Rightarrow> ('q, 's, 'hd, 'w) world \<Rightarrow> ('q, 's, 'hd, 'w) world go" where
  "step_all [] W = Ok W"
| "step_all (n # ns) W = go_bind (step n W) (step_all ns)"

lemma step_all_returns:
  "system_ok W \<Longrightarrow> list_all event_ok ns \<Longrightarrow> \<exists>W'. step_all ns W = Ok W' \<and> system_ok W'"
proof (induction ns arbitrary: W)
  case (Cons n ns)
  then obtain W1 where "step n W = Ok W1" "system_ok W1" using step_returns by force
  with Cons show ?case by simp
qed simp

end

lemma filtering_okD:
  assumes "filtering_ok dispatch"
  shows "dispatch f (OnAdd x) = (if f x then Some (OnAdd x) else None)"
    "dispatch f (OnDelete x) = (if f x then Some (OnDelete x) else None)"
    "dispatch f (OnUpdate x y) =
       (if f x \<and> f y then Some (OnUpdate x y) else if f y then Some (OnAdd y)
        else if f x then Some (OnDelete x) else None)"
  using assms by (simp_all add: filtering_ok_def)

text \<open>What passes a filter is of the type its handlers assert.\<close>

lemma passes_unit: "queued_filter x \<or> dequeued_filter x \<Longrightarrow> \<exists>u. x = UnitObj u"
  by (cases x) auto

lemma passes_queue: "queue_filter x \<Longrightarrow> \<exists>q. x = QueueObj q"
  by (cases x) auto

text \<open>The calls a dispatcher makes pass the filter and are as proper as the notification.\<close>

lemma dispatched:
  assumes "filtering_ok dispatch" "dispatch f n = Some c" "event_ok n"
  shows "case c of OnAdd x \<Rightarrow> f x \<and> obj_ok x | OnUpdate x y \<Rightarrow> f x \<and> f y \<and> obj_ok x \<and> obj_ok y
    | OnDelete x \<Rightarrow> f x \<and> obj_ok x"
  using assms(2,3) by (cases n) (auto simp: filtering_okD [OF assms(1)] split: if_splits)

lemma queued_listener_ok:
  assumes "filtering_ok dispatch"
  shows "listener (queued_listener dispatch t1 t2 :: 'q notification \<Rightarrow> ('q, 's, 'hd, 'w) world \<Rightarrow> _)"
proof
  fix W :: "('q, 's, 'hd, 'w) world" and n :: "'q notification"
  assume W: "system_ok W" and n: "event_ok n"
  show "\<exists>W'. queued_listener dispatch t1 t2 n W = Ok W' \<and> system_ok W' \<and> extends W W'"
  proof (cases "dispatch queued_filter n")
    case None
    with W show ?thesis by (simp add: queued_listener_def)
  next
    case (Some c)
    note c = dispatched [OF assms Some n]
    show ?thesis
      using c Some unit_handlers_ok [OF W]
      by (cases c) (auto simp: queued_listener_def dest!: passes_unit [OF disjI1])
  qed
qed

lemma queue_listener_ok:
  assumes "filtering_ok dispatch" "range_ok rng"
  shows "listener (queue_listener dispatch rng :: 'q notification \<Rightarrow> ('q, 's, 'hd, 'w) world \<Rightarrow> _)"
proof
  fix W :: "('q, 's, 'hd, 'w) world" and n :: "'q notification"
  assume W: "system_ok W" and n: "event_ok n"
  show "\<exists>W'. queue_listener dispatch rng n W = Ok W' \<and> system_ok W' \<and> extends W W'"
  proof (cases "dispatch queue_filter n")
    case None
    with W show ?thesis by (simp add: queue_listener_def)
  next
    case (Some c)
    note c = dispatched [OF assms(1) Some n]
    show ?thesis
      using c Some queue_handlers_ok [OF W] assms(2)
      by (cases c) (auto simp: queue_listener_def dest!: passes_queue)
  qed
qed

lemma system_ok_plugins: "system_ok W \<Longrightarrow> system_ok (W\<lparr>plugins := pl\<rparr>) \<and> extends W (W\<lparr>plugins := pl\<rparr>)"
  by (simp add: system_ok_def world_ok_def extends_def)

lemma dequeued_handlers_ok:
  assumes "framework_client (framework_methods fw)"
    and "system_ok W" "obj_ok (UnitObj u)"
  shows "\<exists>W'. AddDequeuedQueueUnit fw t1 t2 (UnitObj u) W = Ok W' \<and> system_ok W' \<and> extends W W'"
    "\<exists>W'. DeleteDequeuedQueueUnit fw t1 t2 (UnitObj u) W = Ok W' \<and> system_ok W' \<and> extends W W'"
proof -
  have ok: "unit_ok (NewQueueUnitInfo t1 t2 u)" using assms(3) by (simp add: unit_ok_def NewQueueUnitInfo_def)
  obtain pl1 c m where r: "RunReservePluginsReserve fw (plugins W) (NewQueueUnitInfo t1 t2 u) = Ok (pl1, NewStatus c m)"
    using framework_client.reserve_returns [OF assms(1) ok, unfolded framework_methods_simps] by blast
  obtain pl2 where u: "RunReservePluginsUnreserve fw (plugins W) (NewQueueUnitInfo t1 t2 u) = Ok pl2"
    using framework_client.unreserve_returns [OF assms(1) ok, unfolded framework_methods_simps] by blast
  show "\<exists>W'. AddDequeuedQueueUnit fw t1 t2 (UnitObj u) W = Ok W' \<and> system_ok W' \<and> extends W W'"
    "\<exists>W'. DeleteDequeuedQueueUnit fw t1 t2 (UnitObj u) W = Ok W' \<and> system_ok W' \<and> extends W W'"
    using r u system_ok_plugins [OF assms(2)] by (simp_all add: handler_defs)
qed

lemma dequeued_listener_ok:
  assumes "filtering_ok dispatch"
    and "framework_client (framework_methods fw)"
  shows "listener (dequeued_listener dispatch fw t1 t2 :: 'q notification \<Rightarrow> ('q, 's, 'hd, 'w) world \<Rightarrow> _)"
proof
  fix W :: "('q, 's, 'hd, 'w) world" and n :: "'q notification"
  assume W: "system_ok W" and n: "event_ok n"
  show "\<exists>W'. dequeued_listener dispatch fw t1 t2 n W = Ok W' \<and> system_ok W' \<and> extends W W'"
  proof (cases "dispatch dequeued_filter n")
    case None
    with W show ?thesis by (simp add: dequeued_listener_def)
  next
    case (Some c)
    note c = dispatched [OF assms(1) Some n]
    show ?thesis
      using c Some W dequeued_handlers_ok [OF assms(2) W]
      by (cases c) (auto simp: dequeued_listener_def dest!: passes_unit [OF disjI2])
  qed
qed

interpretation queued: listener "queued_listener standard_dispatch t1 t2" for t1 t2
  by (rule queued_listener_ok [OF standard_dispatch_ok])

interpretation dequeued: listener
  "dequeued_listener standard_dispatch (in_tree_framework Q ord handle) t1 t2" for Q ord handle t1 t2
  by (rule dequeued_listener_ok [OF standard_dispatch_ok in_tree.framework_client_axioms])

interpretation queues: listener "queue_listener standard_dispatch name_order"
  by (rule queue_listener_ok [OF standard_dispatch_ok name_order_ok])

end
