(* ===== verification/Controller_Props.thy ===== *)
theory Controller_Props
  imports Controller_Contract Scheduler_Props
begin

text \<open>
  The properties of the controller's handlers: the queues follow the \<^verbatim>\<open>Queue\<close> objects, units
  enter the queue of their consumer's namespace and leave it when they are dequeued, and three
  kinds of events that are lost or end the process.
\<close>

section \<open>The queues follow the Queue objects\<close>

fun notification_of :: "queue_event \<Rightarrow> 'q notification" where
  "notification_of (AddEvent q) = OnAdd (QueueObj q)"
| "notification_of (UpdateEvent old q) = OnUpdate (QueueObj old) (QueueObj q)"
| "notification_of (DeleteEvent q) = OnDelete (QueueObj q)"

fun queue_events ::
  "'q dispatcher \<Rightarrow> range_order \<Rightarrow> queue_event list \<Rightarrow> ('q, 's, 'hd, 'w) world \<Rightarrow> ('q, 's, 'hd, 'w) world go" where
  "queue_events dispatch rng [] W = Ok W"
| "queue_events dispatch rng (e # es) W =
     go_bind (queue_listener dispatch rng (notification_of e) W) (queue_events dispatch rng es)"

text \<open>The abstract state: which \<^verbatim>\<open>Queue\<close> object each queue was made for.\<close>

definition queue_specs :: "('q, 's, 'hd, 'w) world \<Rightarrow> string \<rightharpoonup> Queue" where
  "queue_specs W k = map_option (queue_spec (mq_of W)) (queueMap (mqueue W) k)"

lemma mq_of_set [simp]: "mq_of (set_mq m W) = m"
  by (simp add: mq_of_def set_mq_def)

text \<open>The listener is the event handler of locale \<open>multi_queue\<close>, lifted to the world.\<close>

lemma queue_listener_handle:
  fixes W :: "('q, 's, 'hd, 'w) world"
  assumes "filtering_ok dispatch" "multi_queue (mq_ready :: ('q, 's, 'hd) mq_state \<Rightarrow> bool) queue_spec (MQ_methods rng srt)"
  shows "queue_listener dispatch rng (notification_of e) W =
    go_bind (multi_queue.handle (MQ_methods rng srt) (mq_of W) e) (\<lambda>m. Ok (set_mq m W))"
proof -
  have same: "set_mq (mq_of W) W = W" by (simp add: set_mq_def mq_of_def)
  show ?thesis
    by (cases e) (auto simp: queue_listener_def filtering_okD [OF assms(1)] handler_defs Let_def same
        multi_queue.handle.simps [OF assms(2)])
qed

lemma queue_events_simulate:
  fixes W :: "('q, 's, 'hd, 'w) world"
  assumes "filtering_ok dispatch" "multi_queue (mq_ready :: ('q, 's, 'hd) mq_state \<Rightarrow> bool) queue_spec (MQ_methods rng srt)"
  shows "mq_ready (mq_of W) \<Longrightarrow> \<exists>W'. queue_events dispatch rng es W = Ok W' \<and> mq_ready (mq_of W')
    \<and> queue_specs W' = foldl specs_after (queue_specs W) es"
proof (induction es arbitrary: W)
  case (Cons e es)
  have specs: "queue_specs W = multi_queue.specs queue_spec (MQ_methods rng srt) (mq_of W)" for W :: "('q, 's, 'hd, 'w) world"
    by (rule ext) (simp add: queue_specs_def multi_queue.specs_def [OF assms(2)],
      simp add: GetQueueByName_def mq_of_def)
  from multi_queue.handle_spec [OF assms(2) Cons.prems, of e] obtain m where
    m: "multi_queue.handle (MQ_methods rng srt) (mq_of W) e = Ok m" "mq_ready m"
      "multi_queue.specs queue_spec (MQ_methods rng srt) m = specs_after (queue_specs W) e"
    unfolding specs by blast
  with Cons.IH [of "set_mq m W"] show ?case by (simp add: queue_listener_handle [OF assms] specs)
qed simp



section \<open>Units\<close>

text \<open>A unit whose consumer lives in a namespace with a queue: the handler's method runs on that queue.\<close>

lemma on_queue_known:
  assumes "consumer_namespace u = Ok ns" "queueMap (mqueue W) ns = Some a" "objs (objects W) a = Some p"
    "f p = Ok (p', e)"
  shows "on_queue u f W = Ok (W\<lparr>objects := store a p' (objects W)\<rparr>)"
  using assms by (simp add: on_queue_def GetQueueByName_def mq_of_def call_def)

text \<open>C32. A new unit becomes ready in the queue of its consumer's namespace, with no attempts and the time
  of its arrival, and nothing else changes.\<close>

theorem added_unit_is_ready:
  assumes "filtering_ok dispatch" "world_ok W" "Phase (qu_Status u) \<noteq> Dequeued"
    and "consumer_namespace u = Ok ns" "queueMap (mqueue W) ns = Some a" "objs (objects W) a = Some p"
  shows "\<exists>p'. queued_listener dispatch t1 t2 (OnAdd (UnitObj u)) W = Ok (W\<lparr>objects := store a p' (objects W)\<rparr>)
    \<and> queue_ok p' \<and> active_units p' = (active_units p)(unit_key u \<mapsto> NewQueueUnitInfo t1 t2 u)
    \<and> backoff_units p' = backoff_units p"
proof -
  have qok: "queue_ok p" using world_okD(2) [OF assms(2,6)] .
  have cr: "ConsumerRef (qu_Spec u) \<noteq> None" using assms(4) by (auto simp: consumer_namespace_def split: option.splits)
  from queue_ok_add [OF qok cr, of t1 t2] obtain p' where p': "PSQ_Add t1 t2 p u = Ok (p', None)" "queue_ok p'" by blast
  have "psq_inv p" using qok by (simp add: queue_ok_def)
  with psq.add_spec [of p t1 t2 u] p' show ?thesis
    using on_queue_known [OF assms(4-6), of "\<lambda>q. PSQ_Add t1 t2 q u"] assms(3)
    by (intro exI [of _ p']) (simp add: queued_listener_def filtering_okD [OF assms(1)] AddQueueUnit_def)
qed

lemma job_facts: "consumer_namespace job = Ok ''a''" "Phase (qu_Status job) \<noteq> Dequeued"
    "qu_Namespace job = ''a''" "qu_Name job = ''j''"
  by (simp_all add: job_def sample_unit_def consumer_namespace_def Enqueued_def Dequeued_def)

lemma two_world_fields:
  "queueMap (mqueue (two_world w)) ''a'' = Some 0" "objs (objects (two_world w)) 0 = Some pa"
  "queueMap (mqueue (two_world w)) ''c'' = None"
  by (simp_all add: two_world_def two_mq_def)

theorem added_unit_is_ready_witness:
  "\<exists>p'. queued_listener standard_dispatch 7 8 (OnAdd (UnitObj job)) (two_world ()) =
      Ok ((two_world ())\<lparr>objects := store 0 p' (objects (two_world ()))\<rparr>)
    \<and> active_units p' ''a/j'' = Some (NewQueueUnitInfo 7 8 job)"
  using added_unit_is_ready [OF standard_dispatch_ok two_world_ok [of "()"] job_facts(2,1) two_world_fields(1,2), of 7 8]
  by auto

text \<open>C38. A finding: a unit that arrives before the \<^verbatim>\<open>Queue\<close> object of its namespace is never queued. The
  add event is dropped, and an update of the unit after the queue was added does not insert it.\<close>

theorem unit_before_queue_is_lost:
  assumes "filtering_ok dispatch" "range_ok rng" "system_ok W"
    and "consumer_namespace u = Ok (q_Namespace q)" "consumer_namespace u' = Ok (q_Namespace q)"
    and "Phase (qu_Status u) \<noteq> Dequeued" "Phase (qu_Status u') \<noteq> Dequeued"
    and "queueMap (mqueue W) (q_Namespace q) = None" "QueuePolicy q = Priority_Name"
  shows "\<exists>W2 W3 a p. queued_listener dispatch t1 t2 (OnAdd (UnitObj u)) W = Ok W
    \<and> queue_listener dispatch rng (OnAdd (QueueObj q)) W = Ok W2
    \<and> queued_listener dispatch t3 t4 (OnUpdate (UnitObj u) (UnitObj u')) W2 = Ok W3
    \<and> queueMap (mqueue W3) (q_Namespace q) = Some a \<and> objs (objects W3) a = Some p
    \<and> active_units p = Map.empty \<and> backoff_units p = Map.empty"
proof -
  note disp = filtering_okD [OF assms(1)]
  have lost: "queued_listener dispatch t1 t2 (OnAdd (UnitObj u)) W = Ok W"
    using assms(4,6,8) by (simp add: queued_listener_def disp AddQueueUnit_def on_queue_def GetQueueByName_def mq_of_def)
  have inv: "mq_inv (mqueue W, objects W)" and pol: "QueueSortFuncMap (mq_fw (mqueue W)) (QueuePolicy q) = Some QueueLess"
    using assms(3,9) by (simp_all add: system_ok_def world_ok_def mq_ready_def)
  from MQ_Add_spec [OF assms(2) inv, of q] obtain mq' w' w1 where
    add: "MQ_Add rng q (mqueue W, objects W) = Ok (mq', w')" "(mq', w1) = MQ_Update q q (mqueue W, objects W)"
      "started (ran (queueMap mq')) w1 w'" by blast
  let ?a = "next_addr (objects W)" and ?p = "SetRunStatus (queue_for (mqueue W) q) True"
  have a: "queueMap mq' (q_Namespace q) = Some ?a" "objs w1 ?a = Some (queue_for (mqueue W) q)"
    using add(2) MQ_Update_spec(1) [OF inv, of q q] by simp_all
  then have p: "objs w' ?a = Some ?p" using add(3) by (auto simp: started_def ran_def)
  have emp: "psq_inv ?p" "active_units ?p = Map.empty" "backoff_units ?p = Map.empty"
    using New_inv [OF pol] by (simp_all add: queue_for_def SetRunStatus_def view_defs)
  define W2 where "W2 = set_mq (mq', w') W"
  have W2: "queue_listener dispatch rng (OnAdd (QueueObj q)) W = Ok W2"
    using add(1) assms(8) by (simp add: queue_listener_def disp AddQueue_def W2_def GetQueueByName_def mq_of_def)
  from psq.update_spec [OF emp(1), of t3 t4 u u'] emp(2,3) obtain p' where
    p': "PSQ_Update t3 t4 ?p u u' = Ok (p', None)" "active_units p' = Map.empty" "backoff_units p' = Map.empty"
    by auto
  have "queued_listener dispatch t3 t4 (OnUpdate (UnitObj u) (UnitObj u')) W2 =
      Ok (W2\<lparr>objects := store ?a p' (objects W2)\<rparr>)"
    using on_queue_known [OF assms(5), of W2 ?a ?p "\<lambda>p. PSQ_Update t3 t4 p u u'"] a(1) p p'(1) assms(6,7)
    by (simp add: queued_listener_def disp UpdateQueueUnit_def W2_def set_mq_def)
  then show ?thesis using lost W2 a(1) p'(2,3)
    by (intro exI [of _ W2] exI [of _ "W2\<lparr>objects := store ?a p' (objects W2)\<rparr>"] exI [of _ ?a] exI [of _ p'])
       (simp add: W2_def set_mq_def)
qed

text \<open>The queue "c" of the examples, which the world does not have yet.\<close>

abbreviation qc :: Queue where
  "qc \<equiv> sample_queue ''c'' Priority_Name None"

abbreviation job_c :: "int QueueUnit" where
  "job_c \<equiv> sample_unit ''c'' ''k'' ''c'' None (cpu_list 1)"

lemma two_system_ok: "system_ok (two_world w)"
  using two_world_ok [of w] by (simp add: system_ok_def) (simp add: two_world_def two_mq_def)

theorem unit_before_queue_is_lost_witness:
  "\<exists>W2 W3 a p. queue_listener standard_dispatch name_order (OnAdd (QueueObj qc)) (two_world ()) = Ok W2
    \<and> queued_listener standard_dispatch 3 4 (OnUpdate (UnitObj job_c) (UnitObj job_c)) W2 = Ok W3
    \<and> queueMap (mqueue W3) ''c'' = Some a \<and> objs (objects W3) a = Some p
    \<and> active_units p = Map.empty \<and> backoff_units p = Map.empty"
proof -
  have facts: "consumer_namespace job_c = Ok (q_Namespace qc)" "Phase (qu_Status job_c) \<noteq> Dequeued"
    "QueuePolicy qc = Priority_Name" "q_Namespace qc = ''c''"
    by (simp_all add: sample_unit_def sample_queue_def consumer_namespace_def Enqueued_def Dequeued_def)
  from unit_before_queue_is_lost [OF standard_dispatch_ok name_order_ok two_system_ok [of "()"] facts(1,1,2,2) _ facts(3),
      of 1 2 3 4] show ?thesis
    unfolding facts(4) by (simp add: two_world_fields(3))
qed



text \<open>A finding: when an informer has missed a deletion it reports a tombstone instead of the object. No
  filter lets a tombstone pass, so the deletion of a unit or of a queue that was missed changes
  nothing: the unit stays queued, its reservation stays on record, the queue stays in the map.\<close>

lemma missed_deletions_are_ignored:
  assumes "filtering_ok dispatch"
  shows "queued_listener dispatch t1 t2 (OnDelete (DeletedFinalStateUnknown k)) W = Ok W
    \<and> dequeued_listener dispatch fw t1 t2 (OnDelete (DeletedFinalStateUnknown k)) W = Ok W
    \<and> queue_listener dispatch rng (OnDelete (DeletedFinalStateUnknown k)) W = Ok W"
  by (simp add: queued_listener_def dequeued_listener_def queue_listener_def filtering_okD [OF assms])

text \<open>A finding: a unit without a consumer reference, in any event of the queued units, ends the process,
  and the reference is all that decides: with it no such event panics.\<close>

theorem unit_events_need_consumer:
  assumes "filtering_ok dispatch" "system_ok W" "Phase (qu_Status u) \<noteq> Dequeued" "Phase (qu_Status old) \<noteq> Dequeued"
    and "n = OnAdd (UnitObj u) \<or> n = OnUpdate (UnitObj old) (UnitObj u) \<or> n = OnDelete (UnitObj u)"
  shows "if ConsumerRef (qu_Spec u) = None then queued_listener dispatch t1 t2 n W = Panic NilDereference
    else \<exists>W'. queued_listener dispatch t1 t2 n W = Ok W' \<and> system_ok W'"
proof (cases "ConsumerRef (qu_Spec u)")
  case None
  then have "consumer_namespace u = Panic NilDereference" by (simp add: consumer_namespace_def)
  with None assms(3-5) show ?thesis
    by (auto simp: queued_listener_def filtering_okD [OF assms(1)] AddQueueUnit_def UpdateQueueUnit_def
        DeleteQueueUnit_def on_queue_def)
next
  case (Some ref)
  then have "obj_ok (UnitObj u)" by simp
  note ok = unit_handlers_ok [OF assms(2) this]
  from assms(5) show ?thesis
  proof (elim disjE)
    assume "n = OnAdd (UnitObj u)"
    with ok(1) [of t1 t2] Some assms(3) show ?thesis
      by (auto simp: queued_listener_def filtering_okD [OF assms(1)])
  next
    assume "n = OnUpdate (UnitObj old) (UnitObj u)"
    with ok(2) [of t1 t2 old] Some assms(3,4) show ?thesis
      by (auto simp: queued_listener_def filtering_okD [OF assms(1)])
  next
    assume "n = OnDelete (UnitObj u)"
    with ok(3) Some assms(3) show ?thesis
      by (auto simp: queued_listener_def filtering_okD [OF assms(1)])
  qed
qed

text \<open>A unit made by hand, without a consumer reference.\<close>

abbreviation orphan :: "int QueueUnit" where
  "orphan \<equiv> job\<lparr>qu_Spec := (qu_Spec job)\<lparr>ConsumerRef := None\<rparr>\<rparr>"

theorem unit_events_need_consumer_witness:
  "queued_listener standard_dispatch 1 2 (OnAdd (UnitObj orphan)) (two_world ()) = Panic NilDereference"
  using unit_events_need_consumer [OF standard_dispatch_ok two_system_ok, of orphan job "OnAdd (UnitObj orphan)" 1 2 "()"]
    job_facts(2) by simp

end
