(* ===== verification/Filter_Steps.thy ===== *)
theory Filter_Steps
  imports Framework_Runtime
begin

text \<open>
  \<^verbatim>\<open>ResourceQuota.Filter\<close> holds no lock of its own: it reads the lister once and then takes the
  plugin's read lock once per resource, in \<^verbatim>\<open>GetReservedByResourceName\<close>. Here it is cut at these
  points, so that the reservations can change between two resources. Run without interference the
  steps are \<open>Filter\<close>. With interference the result need not be that of \<open>Filter\<close> in any one of the
  states that were read, but it is where the reservations only shrink or only grow meanwhile.
\<close>

section \<open>The steps\<close>

text \<open>
  What \<^verbatim>\<open>Filter\<close> keeps between two resources: the namespace, the name of the quota object, its
  limits, the request and the resources left to check.
\<close>

type_synonym 'q filter_pc = "string \<times> string \<times> 'q ResourceList \<times> 'q ResourceList \<times> string list"

text \<open>Up to the loop: \<open>Inl\<close> is a status returned early.\<close>

definition Filter_start ::
  "('q ResourceList \<Rightarrow> string list) \<Rightarrow> 'q ResourceQuota \<Rightarrow> 'q QueueUnitInfo \<Rightarrow> (Status option + 'q filter_pc) go" where
  "Filter_start ord rq qu =
     go_bind (consumer_namespace (Unit qu)) (\<lambda>ns.
       case rqLister rq ns of
         Inl err \<Rightarrow> Ok (Inl (NewStatus Error err))
       | Inr rqs \<Rightarrow>
           (case SelectResourceQuota rqs ns of
              Inl err \<Rightarrow> Ok (Inl (NewStatus Error err))
            | Inr basket \<Rightarrow>
                (case Hard basket of
                   None \<Rightarrow> Ok (Inl (NewStatus Error (ErrResourceQuotaStatusHardNil (quota_Name basket))))
                 | Some hard \<Rightarrow>
                     let res = Resource (qu_Spec (Unit qu)) in
                     Ok (Inr (ns, quota_Name basket, hard, res, ord res)))))"

text \<open>One round of the loop, or the end of the method.\<close>

fun Filter_step ::
  "'q quantity_ops \<Rightarrow> 'q ResourceQuota \<Rightarrow> 'q filter_pc \<Rightarrow> Status option + 'q filter_pc" where
  "Filter_step Q rq (ns, basketName, hard, res, []) = Inl (NewStatus Success '''')"
| "Filter_step Q rq (ns, basketName, hard, res, rName # rs) =
     (case res rName of
        None \<Rightarrow> Inr (ns, basketName, hard, res, rs)
      | Some rQuantity \<Rightarrow>
          (case hard rName of
             None \<Rightarrow> Inr (ns, basketName, hard, res, rs)
           | Some basketQuantity \<Rightarrow>
               let reservedQuantity = q_Add Q (GetReservedByResourceName Q rq ns rName) rQuantity in
               if q_Cmp Q basketQuantity reservedQuantity < 0 then
                 Inl (NewStatus Error (ErrResourceQuotaInsufficient rName basketName
                   (q_Value Q reservedQuantity) (q_Value Q basketQuantity) (q_Value Q rQuantity)))
               else Inr (ns, basketName, hard, res, rs)))"

text \<open>The loop, reading the state \<open>rqs n\<close> in its \<open>n\<close>-th round.\<close>

fun filter_reads ::
  "'q quantity_ops \<Rightarrow> (nat \<Rightarrow> 'q ResourceQuota) \<Rightarrow> nat \<Rightarrow> string \<Rightarrow> string \<Rightarrow> 'q ResourceList \<Rightarrow> 'q ResourceList
   \<Rightarrow> string list \<Rightarrow> Status option" where
  "filter_reads Q rqs n ns bn hard res [] = NewStatus Success ''''"
| "filter_reads Q rqs n ns bn hard res (r # rs) =
     (case Filter_step Q (rqs n) (ns, bn, hard, res, r # rs) of
        Inl st \<Rightarrow> st
      | Inr _ \<Rightarrow> filter_reads Q rqs (Suc n) ns bn hard res rs)"

text \<open>\<^verbatim>\<open>Filter\<close> reading the lister in \<open>rqs 0\<close> and the reservations in \<open>rqs 1\<close>, \<open>rqs 2\<close> and so on.\<close>

definition Filter_reads ::
  "'q quantity_ops \<Rightarrow> ('q ResourceList \<Rightarrow> string list) \<Rightarrow> (nat \<Rightarrow> 'q ResourceQuota) \<Rightarrow> 'q QueueUnitInfo
   \<Rightarrow> Status option go" where
  "Filter_reads Q ord rqs qu =
     go_bind (Filter_start ord (rqs 0) qu) (\<lambda>r.
       case r of
         Inl st \<Rightarrow> Ok st
       | Inr (ns, bn, hard, res, rs) \<Rightarrow> Ok (filter_reads Q rqs 1 ns bn hard res rs))"

section \<open>Without interference\<close>

lemma Filter_step_cases:
  "Filter_step Q rq (ns, bn, hard, res, r # rs) =
     (if exceeds Q rq ns hard res r then Inl (filter_loop Q rq ns bn hard res [r])
      else Inr (ns, bn, hard, res, rs))"
  by (auto simp: exceeds_def Let_def split: option.splits)

lemma filter_loop_Cons:
  "filter_loop Q rq ns bn hard res (r # rs) =
     (if exceeds Q rq ns hard res r then filter_loop Q rq ns bn hard res [r]
      else filter_loop Q rq ns bn hard res rs)"
  by (auto simp: exceeds_def Let_def split: option.splits)

lemma filter_reads_const: "filter_reads Q (\<lambda>_. rq) n ns bn hard res rs = filter_loop Q rq ns bn hard res rs"
  by (induction rs arbitrary: n)
    (simp_all add: Filter_step_cases filter_loop_Cons [where rs = "_ # _"] del: Filter_step.simps(2) filter_loop.simps(2),
     metis filter_loop_Cons)

lemma Filter_start_steps:
  "Filter Q ord rq qu =
     go_bind (Filter_start ord rq qu) (\<lambda>r.
       case r of Inl st \<Rightarrow> Ok st | Inr (ns, bn, hard, res, rs) \<Rightarrow> Ok (filter_loop Q rq ns bn hard res rs))"
  by (auto simp: Filter_def Filter_start_def go_bind_assoc Let_def intro!: go_bind_cong split: sum.splits option.splits)

lemma Filter_start_status:
  assumes "Filter_start ord rq qu = Ok (Inl st)"
  shows "\<exists>m. st = NewStatus Error m"
proof (cases "consumer_namespace (Unit qu)")
  case (Ok ns)
  with assms show ?thesis by (auto simp: Filter_start_def Let_def split: sum.split_asm option.split_asm)
qed (use assms in \<open>simp add: Filter_start_def\<close>)

lemma Filter_step_status: "Filter_step Q rq chk = Inl st \<Longrightarrow> \<exists>c m. st = NewStatus c m"
  by (induction Q rq chk rule: Filter_step.induct) (auto simp: Let_def split: option.split_asm if_split_asm)

lemma Filter_status:
  assumes "Filter Q ord rq qu = Ok st"
  shows "\<exists>c m. st = NewStatus c m"
proof (cases "Filter_start ord rq qu")
  case (Ok r)
  with assms filter_loop_status Filter_start_status [of ord rq qu] show ?thesis
    by (cases r) (auto simp: Filter_start_steps)
qed (use assms in \<open>simp add: Filter_start_steps\<close>)

text \<open>What is known where the loop starts.\<close>

lemma Filter_start_check:
  assumes "Filter_start ord rq qu = Ok (Inr (ns, bn, hard, res, rs))"
  shows "consumer_namespace (Unit qu) = Ok ns" "res = Resource (qu_Spec (Unit qu))" "rs = ord res"
    "\<exists>rqs basket. rqLister rq ns = Inr rqs \<and> SelectResourceQuota rqs ns = Inr basket \<and> Hard basket = Some hard"
proof -
  obtain n where n: "consumer_namespace (Unit qu) = Ok n" using assms by (auto simp: Filter_start_def go_simps)
  then obtain rqs where rqs: "rqLister rq n = Inr rqs" using assms by (cases "rqLister rq n") (simp_all add: Filter_start_def)
  then obtain b where b: "SelectResourceQuota rqs n = Inr b"
    using assms n by (cases "SelectResourceQuota rqs n") (simp_all add: Filter_start_def)
  then obtain h where h: "Hard b = Some h" using assms n rqs by (cases "Hard b") (simp_all add: Filter_start_def)
  from assms n rqs b h show "consumer_namespace (Unit qu) = Ok ns" "res = Resource (qu_Spec (Unit qu))" "rs = ord res"
    "\<exists>rqs basket. rqLister rq ns = Inr rqs \<and> SelectResourceQuota rqs ns = Inr basket \<and> Hard basket = Some hard"
    by (auto simp: Filter_start_def Let_def)
qed

section \<open>With interference\<close>

text \<open>Whether the loop fails depends on each resource in the state in which it was read.\<close>

lemma filter_reads_Code:
  "Status_Code (filter_reads Q rqs n ns bn hard res rs) =
     Ok (if \<exists>i < length rs. exceeds Q (rqs (n + i)) ns hard res (rs ! i) then Error else Success)"
proof (induction rs arbitrary: n)
  case (Cons r rs)
  have split: "(\<exists>i < length (r # rs). exceeds Q (rqs (n + i)) ns hard res ((r # rs) ! i)) \<longleftrightarrow>
      exceeds Q (rqs n) ns hard res r \<or> (\<exists>i < length rs. exceeds Q (rqs (Suc n + i)) ns hard res (rs ! i))"
    by (auto simp: less_Suc_eq_0_disj)
  show ?case
    unfolding split by (simp add: Filter_step_cases filter_loop_Code Cons.IH del: filter_loop.simps Filter_step.simps(2))
qed simp

lemma exceeds_mono:
  assumes "quantity_laws Q amount" "reserved_amount Q amount rq ns r \<le> reserved_amount Q amount rq' ns r"
  shows "exceeds Q rq ns hard res r \<Longrightarrow> exceeds Q rq' ns hard res r"
  using assms(2) by (fastforce simp: exceeds_def reserved_amount_def quantity_lawsD [OF assms(1)])

lemma exceeds_lister [simp]: "exceeds Q (rq\<lparr>rqLister := l\<rparr>) = exceeds Q rq"
  by (simp add: exceeds_def GetReservedByResourceName_def fun_eq_iff)

text \<open>The reservations shrink, or grow, from each of the first \<open>n\<close> states to the next ones.\<close>

definition shrinking :: "'q quantity_ops \<Rightarrow> ('q \<Rightarrow> rat) \<Rightarrow> (nat \<Rightarrow> 'q ResourceQuota) \<Rightarrow> nat \<Rightarrow> bool" where
  "shrinking Q amount rqs n \<longleftrightarrow>
     (\<forall>i j ns r. i \<le> j \<longrightarrow> j \<le> n \<longrightarrow> reserved_amount Q amount (rqs j) ns r \<le> reserved_amount Q amount (rqs i) ns r)"

definition growing :: "'q quantity_ops \<Rightarrow> ('q \<Rightarrow> rat) \<Rightarrow> (nat \<Rightarrow> 'q ResourceQuota) \<Rightarrow> nat \<Rightarrow> bool" where
  "growing Q amount rqs n \<longleftrightarrow>
     (\<forall>i j ns r. i \<le> j \<longrightarrow> j \<le> n \<longrightarrow> reserved_amount Q amount (rqs i) ns r \<le> reserved_amount Q amount (rqs j) ns r)"

lemma filter_reads_linear:
  assumes "quantity_laws Q amount" "shrinking Q amount rqs (length rs) \<or> growing Q amount rqs (length rs)"
  shows "\<exists>k \<le> length rs. Status_Code (filter_reads Q rqs 1 ns bn hard res rs) =
    Status_Code (filter_loop Q (rqs k) ns bn hard res rs)"
proof (cases "\<exists>i < length rs. exceeds Q (rqs (1 + i)) ns hard res (rs ! i)")
  case True
  then obtain i where i: "i < length rs" "exceeds Q (rqs (Suc i)) ns hard res (rs ! i)" by auto
  then have "\<exists>r \<in> set rs. exceeds Q (rqs (Suc i)) ns hard res r" by (intro bexI [of _ "rs ! i"]) auto
  with True i(1) show ?thesis by (intro exI [of _ "Suc i"]) (simp add: filter_reads_Code filter_loop_Code)
next
  case False
  let ?k = "if shrinking Q amount rqs (length rs) then length rs else 0"
  have "\<not> exceeds Q (rqs ?k) ns hard res r" if r: "r \<in> set rs" for r
  proof -
    from r obtain i where i: "i < length rs" "r = rs ! i" by (auto simp: in_set_conv_nth)
    have "reserved_amount Q amount (rqs (1 + i)) ns r \<le> reserved_amount Q amount (rqs ?k) ns r
        \<or> reserved_amount Q amount (rqs ?k) ns r \<le> reserved_amount Q amount (rqs (1 + i)) ns r" by linarith
    moreover have "reserved_amount Q amount (rqs ?k) ns r \<le> reserved_amount Q amount (rqs (1 + i)) ns r"
      using assms(2) i(1) by (auto simp: shrinking_def growing_def)
    ultimately show ?thesis using False i exceeds_mono [OF assms(1)] by blast
  qed
  with False show ?thesis by (intro exI [of _ ?k]) (simp add: filter_reads_Code filter_loop_Code)
qed

text \<open>C14. Equivalence of the steps of \<open>Filter\<close> with the method: if the reservations only shrink, or only
  grow, while \<open>Filter\<close> goes from resource to resource, then it passes or fails as if it had run at
  once in one of the states it passed through, with the quota objects it has read.\<close>

theorem filter_linearizes:
  assumes "quantity_laws Q amount"
    and "shrinking Q amount rqs (length (ord (Resource (qu_Spec (Unit qu)))))
      \<or> growing Q amount rqs (length (ord (Resource (qu_Spec (Unit qu)))))"
  shows "\<exists>k \<le> length (ord (Resource (qu_Spec (Unit qu)))).
    go_bind (Filter_reads Q ord rqs qu) Status_Code =
    go_bind (Filter Q ord ((rqs k)\<lparr>rqLister := rqLister (rqs 0)\<rparr>) qu) Status_Code"
proof (cases "Filter_start ord (rqs 0) qu")
  case (Ok r)
  have start: "Filter_start ord ((rqs k)\<lparr>rqLister := rqLister (rqs 0)\<rparr>) qu = Ok r" for k
    using Ok by (simp add: Filter_start_def cong: sum.case_cong option.case_cong)
  have lister: "Status_Code (filter_loop Q (rq\<lparr>rqLister := l\<rparr>) ns bn hard res rs) =
      Status_Code (filter_loop Q rq ns bn hard res rs)" for rq l ns bn hard res rs
    by (simp add: filter_loop_Code)
  show ?thesis
  proof (cases r)
    case (Inl st)
    with Ok start show ?thesis by (auto simp: Filter_reads_def Filter_start_steps)
  next
    case (Inr chk)
    obtain ns bn hard res rs where chk: "chk = (ns, bn, hard, res, rs)" by (cases chk)
    then have "rs = ord (Resource (qu_Spec (Unit qu)))" using Filter_start_check(2,3) [of ord "rqs 0" qu] Ok Inr by simp
    with filter_reads_linear [OF assms(1), of rqs rs ns bn hard res] assms(2) Ok Inr chk start lister show ?thesis
      by (auto simp: Filter_reads_def Filter_start_steps)
  qed
qed (simp add: Filter_reads_def Filter_start_steps exI [of _ 0])

text \<open>The example: 3 CPUs are reserved when the quota objects are read, 1 when the loop looks.\<close>

abbreviation cpu_state :: "int \<Rightarrow> int ResourceQuota" where
  "cpu_state n \<equiv> \<lparr>reserved = [''a'' \<mapsto> cpu_list n], quRecord = Map.empty,
     rqLister = (\<lambda>_. Inr [\<lparr>quota_Name = ''q'', Hard = Some (cpu_list 4)\<rparr>])\<rparr>"

theorem filter_linearizes_witness:
  "\<exists>k \<le> 1. go_bind (Filter_reads int_quantity cpu_order (\<lambda>n. cpu_state (if n = 0 then 3 else 1))
        (NewQueueUnitInfo 0 0 (sample_unit ''a'' ''j'' ''a'' None (cpu_list 2)))) Status_Code =
     go_bind (Filter int_quantity cpu_order (cpu_state (if k = (0::nat) then 3 else 1))
        (NewQueueUnitInfo 0 0 (sample_unit ''a'' ''j'' ''a'' None (cpu_list 2)))) Status_Code"
proof -
  let ?u = "NewQueueUnitInfo 0 0 (sample_unit ''a'' ''j'' ''a'' None (cpu_list 2))"
  have "shrinking int_quantity of_int (\<lambda>n. cpu_state (if n = 0 then 3 else 1)) 1"
    by (auto simp: shrinking_def amount_defs sample_defs)
  moreover have "length (cpu_order (Resource (qu_Spec (Unit ?u)))) = 1" by (simp add: cpu_order_def)
  ultimately show ?thesis
    using filter_linearizes [OF int_quantity_laws, of "\<lambda>n. cpu_state (if n = 0 then 3 else 1)" cpu_order ?u] by simp
qed

section \<open>A result of no state\<close>

text \<open>A unit that holds all the memory gives it back while another one takes all the CPUs.\<close>

definition two_order :: "int ResourceList \<Rightarrow> string list" where
  "two_order m = (if m ''cpu'' \<noteq> None then [''cpu''] else []) @ (if m ''mem'' \<noteq> None then [''mem''] else [])"

definition two_quota :: "int ResourceQuota" where
  "two_quota = \<lparr>reserved = Map.empty, quRecord = Map.empty,
     rqLister = (\<lambda>_. Inr [\<lparr>quota_Name = ''q'', Hard = Some [''cpu'' \<mapsto> 4, ''mem'' \<mapsto> 4]\<rparr>])\<rparr>"

definition holder :: "string \<Rightarrow> int ResourceList \<Rightarrow> int QueueUnitInfo" where
  "holder n res = NewQueueUnitInfo 0 0 (sample_unit ''a'' n ''a'' None res)"

definition mem_taken :: "int ResourceQuota" where
  "mem_taken = fst (Reserve int_quantity two_order two_quota (holder ''m'' [''mem'' \<mapsto> 4]))"

definition cpu_taken :: "int ResourceQuota" where
  "cpu_taken = fst (Reserve int_quantity two_order
     (Unreserve int_quantity two_order mem_taken (holder ''m'' [''mem'' \<mapsto> 4])) (holder ''c'' [''cpu'' \<mapsto> 4]))"

lemmas two_defs = two_order_def two_quota_def holder_def sample_unit_def NewQueueUnitInfo_def int_quantity_def
  QueueUnitToKey_def Let_def

lemma two_states:
  "mem_taken = two_quota\<lparr>reserved := [''a'' \<mapsto> [''mem'' \<mapsto> 4]], quRecord := [''a/m'' \<mapsto> ()]\<rparr>"
  "cpu_taken = two_quota\<lparr>reserved := [''a'' \<mapsto> [''cpu'' \<mapsto> 4]], quRecord := [''a/c'' \<mapsto> ()]\<rparr>"
  by (simp_all add: mem_taken_def cpu_taken_def Reserve_def Unreserve_def two_defs)

text \<open>A finding on atomicity: \<open>Filter\<close> can pass a unit that fits the quota neither before nor after
  the change that came between its two resources, and the reservation that follows goes beyond the
  quota: 5 CPUs of 4.\<close>

theorem filter_passes_in_no_state:
  "let u = holder ''j'' [''cpu'' \<mapsto> 1, ''mem'' \<mapsto> 1]; F = \<lambda>rq. go_bind (Filter int_quantity two_order rq u) Status_Code in
   F mem_taken = Ok Error \<and> F cpu_taken = Ok Error
   \<and> go_bind (Filter_reads int_quantity two_order (\<lambda>n. if n \<le> 1 then mem_taken else cpu_taken) u) Status_Code = Ok Success
   \<and> GetReservedByResourceName int_quantity (fst (Reserve int_quantity two_order cpu_taken u)) ''a'' ''cpu'' = 5"
proof -
  let ?u = "holder ''j'' [''cpu'' \<mapsto> 1, ''mem'' \<mapsto> 1]"
  have "go_bind (Filter int_quantity two_order mem_taken ?u) Status_Code = Ok Error"
    "go_bind (Filter int_quantity two_order cpu_taken ?u) Status_Code = Ok Error"
    by (simp_all add: two_states Filter_def consumer_namespace_def SelectResourceQuota_def GetReservedByResourceName_def two_defs)
  moreover have "go_bind (Filter_reads int_quantity two_order (\<lambda>n. if n \<le> 1 then mem_taken else cpu_taken) ?u) Status_Code = Ok Success"
    by (simp add: two_states Filter_reads_def Filter_start_def consumer_namespace_def SelectResourceQuota_def
        GetReservedByResourceName_def two_defs)
  moreover have "GetReservedByResourceName int_quantity (fst (Reserve int_quantity two_order cpu_taken ?u)) ''a'' ''cpu'' = 5"
    by (simp add: two_states Reserve_def GetReservedByResourceName_def two_defs)
  ultimately show ?thesis by (simp add: Let_def)
qed

end
