(* ===== verification/System.thy ===== *)
theory System
  imports Controller_Contract Scheduler_Props Queue_Props Filter_Steps
begin

text \<open>
  The running program: the scheduler's goroutine, the goroutines it started, the flushers of the
  queues and the three listeners of the informers, interleaved. Each of them is cut into steps at
  the points where another goroutine can come between, that is where it holds no lock: a step is
  one call of a method that holds its object's lock, or one request to the API server.

  The first part cuts \<^verbatim>\<open>schedule\<close>, \<open>ErrorFunc\<close>, the started goroutines and the handlers
  into steps and shows that the steps in sequence are the functions of theories
  \<^verbatim>\<open>Scheduler\<close> and \<^verbatim>\<open>Controller\<close>. The second part puts them together: a configuration is the
  world with the point that each goroutine has reached, \<open>exec\<close> runs one action of one goroutine or
  of the environment (the API server and the cache of quota objects change on their own), and a
  panic is the end of the process. \<open>reachable\<close> collects the configurations that sequences of actions
  lead to.

  The filter of the in-tree framework takes its plugin's lock once per resource, so it is the steps
  of theory \<^verbatim>\<open>Filter_Steps\<close> here.
\<close>

section \<open>Steps of the scheduler\<close>

text \<open>\<open>ErrorFunc\<close> in two steps: the request, whose result is the unit to give back, if any, and the call of the queue.\<close>

definition ErrorFunc_get ::
  "('q, 's, 'hd, 'w) Scheduler \<Rightarrow> time \<Rightarrow> 'q QueueUnitInfo \<Rightarrow> ('q, 's, 'hd, 'w) world
   \<Rightarrow> ('q, 's, 'hd, 'w) world \<times> 'q QueueUnitInfo option" where
  "ErrorFunc_get s now queueUnit W =
     (let u1 = queueUnit\<lparr>Attempts := Attempts queueUnit + 1, Timestamp := now\<rparr> in
      case api_Get (sch_client s) (api W) (qu_Namespace (Unit u1)) (qu_Name (Unit u1)) of
        (w, Inl err) \<Rightarrow> (W\<lparr>api := w\<rparr>, None)
      | (w, Inr newQueueUnit) \<Rightarrow> (W\<lparr>api := w\<rparr>, Some (u1\<lparr>Unit := newQueueUnit\<rparr>)))"

definition ErrorFunc_add ::
  "'q QueueUnitInfo \<Rightarrow> addr \<Rightarrow> ('q, 's, 'hd, 'w) world \<Rightarrow> ('q, 's, 'hd, 'w) world go" where
  "ErrorFunc_add u q W =
     go_bind (call q (\<lambda>p. AddUnschedulableIfNotPresent p u) (objects W)) (\<lambda>(objs, err). Ok (W\<lparr>objects := objs\<rparr>))"

lemma ErrorFunc_steps:
  "ErrorFunc s now u q W =
     (case ErrorFunc_get s now u W of (W1, None) \<Rightarrow> Ok W1 | (W1, Some x) \<Rightarrow> ErrorFunc_add x q W1)"
  by (auto simp: ErrorFunc_def ErrorFunc_get_def ErrorFunc_add_def Let_def split: prod.splits sum.splits
      intro: go_bind_cong)

text \<open>The points of \<^verbatim>\<open>schedule\<close>: the loop variable, the current queue, the unit, the queues left.\<close>

datatype 'q pc =
    Idle
  | Loop nat "addr list"
  | Popping nat addr "addr list"                      \<comment> \<open>\<open>q.Length() > 0\<close> was true\<close>
  | Filtering nat addr "'q QueueUnitInfo" "addr list"
  | Checking nat addr "'q QueueUnitInfo" "'q filter_pc" "addr list" \<comment> \<open>in the loop of \<open>Filter\<close>\<close>
  | Reserving nat addr "'q QueueUnitInfo" "addr list"
  | Failing nat addr "'q QueueUnitInfo" "addr list"   \<comment> \<open>before the request of \<open>ErrorFunc\<close>\<close>
  | Returning nat addr "'q QueueUnitInfo" "addr list" \<comment> \<open>after it\<close>

text \<open>The program: its framework and client, and what the language and the libraries leave open.\<close>

record ('q, 's, 'hd, 'w) program =
  p_quantity :: "'q quantity_ops"
  p_order :: "'q ResourceList \<Rightarrow> string list"
  p_rng :: range_order
  p_srt :: slice_sort
  p_dispatch :: "'q dispatcher"
  p_sched :: "('q, 's, 'hd, 'w) Scheduler"

text \<open>Where \<^verbatim>\<open>schedule\<close> goes from the loop of \<open>Filter\<close>: on through it, or with its status to \<open>Reserve\<close> or to \<open>ErrorFunc\<close>.\<close>

definition after_filter ::
  "nat \<Rightarrow> addr \<Rightarrow> 'q QueueUnitInfo \<Rightarrow> addr list \<Rightarrow> Status option + 'q filter_pc \<Rightarrow> 'q pc go" where
  "after_filter v q u qs r =
     (case r of
        Inr chk \<Rightarrow> Ok (Checking v q u chk qs)
      | Inl status \<Rightarrow> go_bind (log_status status) (\<lambda>code.
          Ok (if code = Success then Reserving v q u qs else Failing v q u qs)))"

lemma after_filter_cases:
  assumes "after_filter v q u qs r = Ok pc"
  obtains (check) chk where "r = Inr chk" "pc = Checking v q u chk qs"
  | (pass) st where "r = Inl st" "log_status st = Ok Success" "pc = Reserving v q u qs"
  | (fail) "pc = Failing v q u qs"
  using assms by (cases r) (auto simp: after_filter_def go_simps split: if_splits)

text \<open>\<open>now\<close> is only read by \<open>ErrorFunc\<close>.\<close>

fun sched_step ::
  "('q, 'q ResourceQuota, 'hd, 'w) program \<Rightarrow> time \<Rightarrow> ('q, 'q ResourceQuota, 'hd, 'w) world \<times> 'q pc
   \<Rightarrow> (('q, 'q ResourceQuota, 'hd, 'w) world \<times> 'q pc) go" where
  "sched_step P now (W, Idle) =
     go_bind (SortedQueue (p_rng P) (p_srt P) (mqueue W, objects W)) (\<lambda>qs.
       Ok (W\<lparr>next_var := Suc (next_var W)\<rparr>, Loop (next_var W) qs))"
| "sched_step P now (W, Loop v []) = Ok (W, Idle)"
| "sched_step P now (W, Loop v (q # qs)) =
     go_bind (deref (objects W) q) (\<lambda>p.
       Ok (W\<lparr>vars := (vars W)(v \<mapsto> q)\<rparr>, if 0 < PSQ_Length p then Popping v q qs else Loop v qs))"
| "sched_step P now (W, Popping v q qs) =
     go_bind (call q PSQ_Pop (objects W)) (\<lambda>(objs, u). Ok (W\<lparr>objects := objs\<rparr>, Filtering v q u qs))"
| "sched_step P now (W, Filtering v q u qs) =
     go_bind (Filter_start (p_order P) (plugins W) u) (\<lambda>r. go_bind (after_filter v q u qs r) (\<lambda>pc. Ok (W, pc)))"
| "sched_step P now (W, Checking v q u chk qs) =
     go_bind (after_filter v q u qs (Filter_step (p_quantity P) (plugins W) chk)) (\<lambda>pc. Ok (W, pc))"
| "sched_step P now (W, Reserving v q u qs) =
     go_bind (RunReservePluginsReserve (sch_fw (p_sched P)) (plugins W) u) (\<lambda>(pl, status).
     go_bind (log_status status) (\<lambda>code.
       if code \<noteq> Success then Ok (W\<lparr>plugins := pl\<rparr>, Failing v q u qs)
       else Ok (W\<lparr>plugins := pl, tasks := tasks W @ [(u, v)]\<rparr>, Loop v qs)))"
| "sched_step P now (W, Failing v q u qs) =
     (case ErrorFunc_get (p_sched P) now u W of
        (W1, None) \<Rightarrow> Ok (W1, Loop v qs)
      | (W1, Some x) \<Rightarrow> Ok (W1, Returning v q x qs))"
| "sched_step P now (W, Returning v q u qs) = go_bind (ErrorFunc_add u q W) (\<lambda>W1. Ok (W1, Loop v qs))"

text \<open>The steps of the scheduler alone, at the given times.\<close>

fun sched_steps ::
  "('q, 'q ResourceQuota, 'hd, 'w) program \<Rightarrow> time list \<Rightarrow> ('q, 'q ResourceQuota, 'hd, 'w) world \<times> 'q pc
   \<Rightarrow> (('q, 'q ResourceQuota, 'hd, 'w) world \<times> 'q pc) go" where
  "sched_steps P [] c = Ok c"
| "sched_steps P (t # ts) c = go_bind (sched_step P t c) (sched_steps P ts)"

lemma sched_steps_append: "sched_steps P (ts @ us) c = go_bind (sched_steps P ts c) (sched_steps P us)"
  by (induction ts arbitrary: c) (auto simp: go_bind_assoc intro: go_bind_cong)

lemma sched_steps_Nil: "sched_steps P [] = Ok"
  by (rule ext) simp

lemma steps_Failing:
  "\<exists>ts. sched_steps P ts (W, Failing v q u qs) = go_bind (ErrorFunc (p_sched P) now u q W) (\<lambda>W1. Ok (W1, Loop v qs))"
proof (cases "ErrorFunc_get (p_sched P) now u W")
  case (Pair W1 r)
  show ?thesis
  proof (cases r)
    case None
    with Pair show ?thesis by (intro exI [of _ "[now]"]) (simp add: ErrorFunc_steps)
  next
    case (Some x)
    with Pair show ?thesis by (intro exI [of _ "[now, now]"]) (simp add: ErrorFunc_steps sched_steps_Nil)
  qed
qed

lemma one_step: "sched_step P now c = r \<Longrightarrow> \<exists>ts. sched_steps P ts c = r"
  by (intro exI [of _ "[now]"]) (simp add: sched_steps_Nil)

lemma step_then:
  assumes "sched_step P now c = Ok c'" "\<exists>ts. sched_steps P ts c' = r"
  shows "\<exists>ts. sched_steps P ts c = r"
proof -
  obtain ts where "sched_steps P ts c' = r" using assms(2) by blast
  with assms(1) show ?thesis by (intro exI [of _ "now # ts"]) simp
qed

text \<open>What is left of a round once the unit has been popped, and once it has passed the filter.\<close>

definition reserve_tail ::
  "('q, 's, 'hd, 'w) Scheduler \<Rightarrow> time \<Rightarrow> nat \<Rightarrow> addr \<Rightarrow> 'q QueueUnitInfo \<Rightarrow> ('q, 's, 'hd, 'w) world
   \<Rightarrow> ('q, 's, 'hd, 'w) world go" where
  "reserve_tail s now v q u W =
     go_bind (RunReservePluginsReserve (sch_fw s) (plugins W) u) (\<lambda>(pl, status).
     go_bind (log_status status) (\<lambda>code.
       if code \<noteq> Success then ErrorFunc s now u q (W\<lparr>plugins := pl\<rparr>)
       else Ok (W\<lparr>plugins := pl, tasks := tasks W @ [(u, v)]\<rparr>)))"

definition filter_tail ::
  "('q, 's, 'hd, 'w) Scheduler \<Rightarrow> time \<Rightarrow> nat \<Rightarrow> addr \<Rightarrow> 'q QueueUnitInfo \<Rightarrow> ('q, 's, 'hd, 'w) world
   \<Rightarrow> ('q, 's, 'hd, 'w) world go" where
  "filter_tail s now v q u W =
     go_bind (RunFilterPlugins (sch_fw s) (plugins W) u) (\<lambda>(pl, status).
     go_bind (log_status status) (\<lambda>code.
       if code = Success then reserve_tail s now v q u (W\<lparr>plugins := pl\<rparr>)
       else ErrorFunc s now u q (W\<lparr>plugins := pl\<rparr>)))"

lemma schedule_round_tail:
  "schedule_round s now v q W =
     (let W0 = W\<lparr>vars := (vars W)(v \<mapsto> q)\<rparr> in
      go_bind (deref (objects W) q) (\<lambda>p.
      if 0 < PSQ_Length p then
        go_bind (call q PSQ_Pop (objects W)) (\<lambda>(objs, u). filter_tail s now v q u (W0\<lparr>objects := objs\<rparr>))
      else Ok W0))"
  by (simp add: schedule_round_def filter_tail_def reserve_tail_def Let_def split_def cong: if_cong)

lemma steps_Reserving:
  "\<exists>ts. sched_steps P ts (W, Reserving v q u qs) =
     go_bind (reserve_tail (p_sched P) now v q u W) (\<lambda>W'. Ok (W', Loop v qs))"
proof (cases "RunReservePluginsReserve (sch_fw (p_sched P)) (plugins W) u")
  case (Ok r)
  obtain pl st where "r = (pl, st)" by force
  with Ok steps_Failing [of P "W\<lparr>plugins := pl\<rparr>" v q u qs now] show ?thesis
    by (cases "log_status st")
      (auto simp: reserve_tail_def intro: one_step [of P now] step_then [of P now])
qed (auto simp: reserve_tail_def intro: one_step [of P now])

text \<open>The framework of the program is the in-tree one, over its quantities.\<close>

definition in_tree_program :: "('q, 'q ResourceQuota, 'hd, 'w) program \<Rightarrow> bool" where
  "in_tree_program P \<longleftrightarrow> (\<exists>handle. sch_fw (p_sched P) = in_tree_framework (p_quantity P) (p_order P) handle)"

lemma after_filter_status [simp]:
  "after_filter v q u qs (Inl (NewStatus c m)) = Ok (if c = Success then Reserving v q u qs else Failing v q u qs)"
  "after_filter v q u qs (Inr chk) = Ok (Checking v q u chk qs)"
  by (simp_all add: after_filter_def log_status_def)

lemma steps_Checking:
  "\<exists>ts. sched_steps P ts (W, Checking v q u (ns, bn, hard, res, rs) qs) =
     go_bind (after_filter v q u qs (Inl (filter_loop (p_quantity P) (plugins W) ns bn hard res rs))) (\<lambda>pc. Ok (W, pc))"
proof (induction rs)
  case (Cons r rs)
  show ?case
  proof (cases "exceeds (p_quantity P) (plugins W) ns hard res r")
    case True
    then show ?thesis
      by (intro one_step [of P 0])
        (simp add: Filter_step_cases filter_loop_Cons [of _ _ _ _ _ _ _ rs] del: Filter_step.simps(2) filter_loop.simps)
  next
    case False
    then have "sched_step P 0 (W, Checking v q u (ns, bn, hard, res, r # rs) qs) = Ok (W, Checking v q u (ns, bn, hard, res, rs) qs)"
      by (simp add: Filter_step_cases del: Filter_step.simps(2))
    from step_then [OF this Cons.IH] False show ?thesis
      by (simp add: filter_loop_Cons [of _ _ _ _ _ _ _ rs] del: filter_loop.simps)
  qed
qed (simp add: one_step [of P 0])

lemma steps_then:
  assumes "\<exists>ts. sched_steps P ts c = Ok c'" "\<exists>ts. sched_steps P ts c' = r"
  shows "\<exists>ts. sched_steps P ts c = r"
proof -
  obtain ts us where "sched_steps P ts c = Ok c'" "sched_steps P us c' = r" using assms by blast
  then show ?thesis by (intro exI [of _ "ts @ us"]) (simp add: sched_steps_append)
qed

text \<open>The steps of the filter together are \<open>Filter\<close>.\<close>

lemma steps_Filter:
  assumes "Filter (p_quantity P) (p_order P) (plugins W) u = r"
  shows "\<exists>ts. sched_steps P ts (W, Filtering v q u qs) =
     go_bind r (\<lambda>st. go_bind (after_filter v q u qs (Inl st)) (\<lambda>pc. Ok (W, pc)))"
proof (cases "Filter_start (p_order P) (plugins W) u")
  case (Ok x)
  show ?thesis
  proof (cases x)
    case (Inr chk)
    obtain ns bn hard res rs where chk: "chk = (ns, bn, hard, res, rs)" by (cases chk)
    have "sched_step P 0 (W, Filtering v q u qs) = Ok (W, Checking v q u chk qs)" using Ok Inr by simp
    from step_then [OF this, unfolded chk, OF steps_Checking] assms Ok Inr chk show ?thesis
      by (auto simp: Filter_start_steps)
  qed (use assms Ok in \<open>auto simp: Filter_start_steps intro: one_step [of P 0]\<close>)
qed (use assms in \<open>auto simp: Filter_start_steps intro: one_step [of P 0]\<close>)

lemma steps_Filtering:
  assumes "in_tree_program P"
  shows "\<exists>ts. sched_steps P ts (W, Filtering v q u qs) =
     go_bind (filter_tail (p_sched P) now v q u W) (\<lambda>W'. Ok (W', Loop v qs))"
proof (cases "Filter (p_quantity P) (p_order P) (plugins W) u")
  case (Ok st)
  then obtain c m where st: "st = NewStatus c m" using Filter_status by blast
  from steps_Filter [OF Ok, of v q qs] st have "\<exists>ts. sched_steps P ts (W, Filtering v q u qs) =
      Ok (W, if c = Success then Reserving v q u qs else Failing v q u qs)" by simp
  moreover obtain handle where "sch_fw (p_sched P) = in_tree_framework (p_quantity P) (p_order P) handle"
    using assms by (auto simp: in_tree_program_def)
  then have "filter_tail (p_sched P) now v q u W =
      (if c = Success then reserve_tail (p_sched P) now v q u W else ErrorFunc (p_sched P) now u q W)"
    using Ok st by (simp add: filter_tail_def log_status_def)
  ultimately show ?thesis
    using steps_Failing [of P W v q u qs now] steps_Reserving [of P W v q u qs now]
    by (cases "c = Success") (simp_all add: steps_then)
next
  case (Panic e)
  moreover obtain handle where "sch_fw (p_sched P) = in_tree_framework (p_quantity P) (p_order P) handle"
    using assms by (auto simp: in_tree_program_def)
  ultimately show ?thesis using steps_Filter [OF Panic, of v q qs] by (simp add: filter_tail_def)
qed

lemma steps_round:
  assumes "in_tree_program P"
  shows "\<exists>ts. sched_steps P ts (W, Loop v (q # qs)) =
     go_bind (schedule_round (p_sched P) now v q W) (\<lambda>W'. Ok (W', Loop v qs))"
proof (cases "deref (objects W) q")
  case (Ok p)
  let ?W0 = "W\<lparr>vars := (vars W)(v \<mapsto> q)\<rparr>"
  show ?thesis
  proof (cases "0 < PSQ_Length p")
    case True
    have "\<exists>ts. sched_steps P ts (?W0, Popping v q qs) =
        go_bind (schedule_round (p_sched P) now v q W) (\<lambda>W'. Ok (W', Loop v qs))"
    proof (cases "call q PSQ_Pop (objects W)")
      case (Ok r)
      with \<open>deref (objects W) q = Ok p\<close> True
        steps_Filtering [OF assms, of "?W0\<lparr>objects := fst r\<rparr>" v q "snd r" qs now] show ?thesis
        by (auto simp: schedule_round_tail Let_def split_def intro: step_then [of P now])
    qed (use Ok True in \<open>auto simp: schedule_round_tail intro: one_step [of P now]\<close>)
    with Ok True show ?thesis by (auto intro: step_then [of P now])
  qed (use Ok in \<open>auto simp: schedule_round_tail intro: one_step [of P now]\<close>)
qed (auto simp: schedule_round_tail intro: one_step [of P now])

lemma steps_loop:
  assumes "in_tree_program P"
  shows "\<exists>ts. sched_steps P ts (W, Loop v qs) =
     go_bind (schedule_loop (p_sched P) clk n v qs W) (\<lambda>W'. Ok (W', Idle))"
proof (induction qs arbitrary: n W)
  case (Cons q qs)
  obtain ts where ts: "sched_steps P ts (W, Loop v (q # qs)) =
    go_bind (schedule_round (p_sched P) (clk n) v q W) (\<lambda>W'. Ok (W', Loop v qs))"
    using steps_round [OF assms] by blast
  show ?case
  proof (cases "schedule_round (p_sched P) (clk n) v q W")
    case (Ok W1)
    from Cons.IH [of W1 "Suc n"] obtain us where "sched_steps P us (W1, Loop v qs) =
      go_bind (schedule_loop (p_sched P) clk (Suc n) v qs W1) (\<lambda>W'. Ok (W', Idle))" by blast
    with ts Ok show ?thesis by (intro exI [of _ "ts @ us"]) (simp add: sched_steps_append)
  qed (use ts in \<open>auto intro: exI [of _ ts]\<close>)
qed (auto intro: one_step [of P 0])

section \<open>Steps of the other goroutines\<close>

text \<open>
  A goroutine started for a unit, after its first step, the \<open>Get\<close> of \<open>Dequeue\<close>: it is about to send
  the update, it has failed to dequeue, it has given the reservation back, or it has the unit to give
  back to a queue. The loop variable is read when \<open>ErrorFunc\<close> is called.
\<close>

datatype 'q task_pc =
    Updating "'q QueueUnitInfo" nat "'q QueueUnit"
  | Unreserving "'q QueueUnitInfo" nat
  | Retrying "'q QueueUnitInfo" nat
  | Requeueing "'q QueueUnitInfo" addr

fun task_step ::
  "('q, 's, 'hd, 'w) Scheduler \<Rightarrow> time \<Rightarrow> 'q task_pc \<Rightarrow> ('q, 's, 'hd, 'w) world
   \<Rightarrow> (('q, 's, 'hd, 'w) world \<times> 'q task_pc option) go" where
  "task_step s now (Updating u v newQueueUnit) W =
     (case api_Update (sch_client s) (api W) (qu_Namespace (Unit u)) (mark_dequeued newQueueUnit) of
        (w, Inl err) \<Rightarrow> Ok (W\<lparr>api := w\<rparr>, Some (Unreserving u v))
      | (w, Inr _) \<Rightarrow> Ok (W\<lparr>api := w\<rparr>, None))"
| "task_step s now (Unreserving u v) W =
     go_bind (RunReservePluginsUnreserve (sch_fw s) (plugins W) u) (\<lambda>pl.
       Ok (W\<lparr>plugins := pl\<rparr>, Some (Retrying u v)))"
| "task_step s now (Retrying u v) W =
     (case vars W v of
        None \<Rightarrow> Panic NilDereference
      | Some q \<Rightarrow>
          (case ErrorFunc_get s now u W of
             (W1, None) \<Rightarrow> Ok (W1, None)
           | (W1, Some x) \<Rightarrow> Ok (W1, Some (Requeueing x q))))"
| "task_step s now (Requeueing u q) W = go_bind (ErrorFunc_add u q W) (\<lambda>W1. Ok (W1, None))"

definition task_start ::
  "('q, 's, 'hd, 'w) Scheduler \<Rightarrow> 'q QueueUnitInfo \<Rightarrow> nat \<Rightarrow> ('q, 's, 'hd, 'w) world
   \<Rightarrow> ('q, 's, 'hd, 'w) world \<times> 'q task_pc" where
  "task_start s u v W =
     (case api_Get (sch_client s) (api W) (qu_Namespace (Unit u)) (qu_Name (Unit u)) of
        (w, Inl err) \<Rightarrow> (W\<lparr>api := w\<rparr>, Unreserving u v)
      | (w, Inr newQueueUnit) \<Rightarrow> (W\<lparr>api := w\<rparr>, Updating u v newQueueUnit))"

text \<open>Up to \<open>n\<close> steps of a goroutine alone.\<close>

fun task_steps ::
  "('q, 's, 'hd, 'w) Scheduler \<Rightarrow> time \<Rightarrow> nat \<Rightarrow> ('q, 's, 'hd, 'w) world \<times> 'q task_pc option
   \<Rightarrow> (('q, 's, 'hd, 'w) world \<times> 'q task_pc option) go" where
  "task_steps s now (Suc n) (W, Some t) = go_bind (task_step s now t W) (task_steps s now n)"
| "task_steps s now _ c = Ok c"

lemma run_task_steps:
  "task_steps s now 4 (map_prod id Some (task_start s u v W)) = go_bind (run_task s now u v W) (\<lambda>W'. Ok (W', None))"
proof -
  have Nil: "task_steps s now 0 = Ok" by (rule ext) auto
  show ?thesis
    by (auto simp: task_start_def run_task_def Dequeue_def eval_nat_numeral Nil go_bind_assoc ErrorFunc_steps
        split: prod.splits option.splits sum.splits intro!: go_bind_cong)
qed

text \<open>The handlers of queued units: the lookup of the queue, then the call of its method.\<close>

datatype 'q queue_call =
    CallAdd "'q QueueUnit" | CallUpdate "'q QueueUnit" "'q QueueUnit" | CallDelete "'q QueueUnit"

datatype 'q unit_pc = UnitIdle | UnitCall addr "'q queue_call"

primrec call_unit :: "'q queue_call \<Rightarrow> 'q QueueUnit" where
  "call_unit (CallAdd u) = u"
| "call_unit (CallUpdate old u) = u"
| "call_unit (CallDelete u) = u"

primrec call_method ::
  "time \<Rightarrow> time \<Rightarrow> 'q queue_call \<Rightarrow> 'q PrioritySchedulingQueue
   \<Rightarrow> ('q PrioritySchedulingQueue \<times> 'q unit_error option) go" where
  "call_method t1 t2 (CallAdd u) = (\<lambda>p. PSQ_Add t1 t2 p u)"
| "call_method t1 t2 (CallUpdate old u) = (\<lambda>p. PSQ_Update t1 t2 p old u)"
| "call_method t1 t2 (CallDelete u) = (\<lambda>p. PSQ_Delete p u)"

definition unit_lookup :: "'q queue_call \<Rightarrow> ('q, 's, 'hd, 'w) world \<Rightarrow> 'q unit_pc go" where
  "unit_lookup c W =
     go_bind (consumer_namespace (call_unit c)) (\<lambda>queueName.
       Ok (case GetQueueByName (mq_of W) queueName of None \<Rightarrow> UnitIdle | Some q \<Rightarrow> UnitCall q c))"

definition unit_start :: "'q dispatcher \<Rightarrow> 'q notification \<Rightarrow> ('q, 's, 'hd, 'w) world \<Rightarrow> 'q unit_pc go" where
  "unit_start dispatch n W =
     (case dispatch queued_filter n of
        None \<Rightarrow> Ok UnitIdle
      | Some (OnAdd x) \<Rightarrow> go_bind (as_unit x) (\<lambda>u. unit_lookup (CallAdd u) W)
      | Some (OnUpdate x y) \<Rightarrow>
          go_bind (as_unit x) (\<lambda>old. go_bind (as_unit y) (\<lambda>u. unit_lookup (CallUpdate old u) W))
      | Some (OnDelete x) \<Rightarrow> go_bind (as_unit x) (\<lambda>u. unit_lookup (CallDelete u) W))"

fun unit_finish ::
  "time \<Rightarrow> time \<Rightarrow> 'q unit_pc \<Rightarrow> ('q, 's, 'hd, 'w) world \<Rightarrow> ('q, 's, 'hd, 'w) world go" where
  "unit_finish t1 t2 UnitIdle W = Ok W"
| "unit_finish t1 t2 (UnitCall q c) W =
     go_bind (call q (call_method t1 t2 c) (objects W)) (\<lambda>(objs, err). Ok (W\<lparr>objects := objs\<rparr>))"

lemma on_queue_steps:
  "on_queue (call_unit c) (call_method t1 t2 c) W = go_bind (unit_lookup c W) (\<lambda>pc. unit_finish t1 t2 pc W)"
  by (auto simp: on_queue_def unit_lookup_def go_bind_assoc intro!: go_bind_cong split: option.splits)

lemma queued_listener_steps:
  "queued_listener dispatch t1 t2 n W = go_bind (unit_start dispatch n W) (\<lambda>pc. unit_finish t1 t2 pc W)"
proof -
  have eq: "AddQueueUnit t1 t2 x W = go_bind (as_unit x) (\<lambda>u. go_bind (unit_lookup (CallAdd u) W) (\<lambda>pc. unit_finish t1 t2 pc W))"
    "UpdateQueueUnit t1 t2 x y W = go_bind (as_unit x) (\<lambda>old. go_bind (as_unit y) (\<lambda>u.
       go_bind (unit_lookup (CallUpdate old u) W) (\<lambda>pc. unit_finish t1 t2 pc W)))"
    "DeleteQueueUnit x W = go_bind (as_unit x) (\<lambda>u. go_bind (unit_lookup (CallDelete u) W) (\<lambda>pc. unit_finish t1 t2 pc W))"
    for x y
    by (simp_all add: on_queue_steps [symmetric] handler_defs)
  show ?thesis
    by (auto simp: queued_listener_def unit_start_def eq go_bind_assoc split: option.splits notification.splits)
qed

text \<open>\<open>AddQueue\<close>: the test whether there is a queue, then \<open>Add\<close>; the other queue events are one call each.\<close>

datatype queue_pc = QueueIdle | QueueAdding Queue

definition queue_start ::
  "'q dispatcher \<Rightarrow> 'q notification \<Rightarrow> ('q, 's, 'hd, 'w) world \<Rightarrow> (('q, 's, 'hd, 'w) world \<times> queue_pc) go" where
  "queue_start dispatch n W =
     (case dispatch queue_filter n of
        None \<Rightarrow> Ok (W, QueueIdle)
      | Some (OnAdd x) \<Rightarrow> go_bind (as_queue x) (\<lambda>q.
          Ok (W, if GetQueueByName (mq_of W) (q_Namespace q) \<noteq> None then QueueIdle else QueueAdding q))
      | Some (OnUpdate x y) \<Rightarrow> go_bind (UpdateQueue x y W) (\<lambda>W1. Ok (W1, QueueIdle))
      | Some (OnDelete x) \<Rightarrow> go_bind (DeleteQueue x W) (\<lambda>W1. Ok (W1, QueueIdle)))"

fun queue_finish :: "range_order \<Rightarrow> queue_pc \<Rightarrow> ('q, 's, 'hd, 'w) world \<Rightarrow> ('q, 's, 'hd, 'w) world go" where
  "queue_finish rng QueueIdle W = Ok W"
| "queue_finish rng (QueueAdding q) W = go_bind (MQ_Add rng q (mq_of W)) (\<lambda>m. Ok (set_mq m W))"

lemma queue_listener_steps:
  "queue_listener dispatch rng n W = go_bind (queue_start dispatch n W) (\<lambda>(W1, pc). queue_finish rng pc W1)"
  by (auto simp: queue_listener_def queue_start_def AddQueue_def Let_def go_bind_assoc intro!: go_bind_cong
      split: option.splits notification.splits)

section \<open>Configurations and actions\<close>

record ('q, 's, 'hd, 'w) config =
  c_world :: "('q, 's, 'hd, 'w) world"
  c_sched :: "'q pc"
  c_running :: "'q task_pc list"
  c_unit :: "'q unit_pc"
  c_queue :: queue_pc

definition start_config :: "('q, 's, 'hd, 'w) world \<Rightarrow> ('q, 's, 'hd, 'w) config" where
  "start_config W = \<lparr>c_world = W, c_sched = Idle, c_running = [], c_unit = UnitIdle, c_queue = QueueIdle\<rparr>"

datatype ('q, 'w) action =
    Sched time                                \<comment> \<open>the scheduler's next step\<close>
  | Task nat                                  \<comment> \<open>the first step of a goroutine it started\<close>
  | Running nat time                          \<comment> \<open>the next step of such a goroutine\<close>
  | Flusher addr "nat \<Rightarrow> time"
  | UnitEvent "'q notification"               \<comment> \<open>first listener of the unit informer\<close>
  | UnitMethod time time                      \<comment> \<open>its second step\<close>
  | DequeuedEvent time time "'q notification" \<comment> \<open>second listener of the unit informer\<close>
  | QueueEvent "'q notification"
  | QueueMethod
  | Server 'w                                 \<comment> \<open>the API server changes\<close>
  | Quotas "string \<Rightarrow> string + 'q QuotaObject list"    \<comment> \<open>the cache of quota objects changes\<close>

definition without :: "nat \<Rightarrow> 'a list \<Rightarrow> 'a list" where
  "without i xs = take i xs @ drop (Suc i) xs"

lemma set_without: "set (without i xs) \<subseteq> set xs"
  by (auto simp: without_def dest: in_set_takeD in_set_dropD)

text \<open>One action; those that are not possible change nothing. A listener takes an event once it is done with the one before.\<close>

fun exec ::
  "('q, 'q ResourceQuota, 'hd, 'w) program \<Rightarrow> ('q, 'w) action \<Rightarrow> ('q, 'q ResourceQuota, 'hd, 'w) config
   \<Rightarrow> ('q, 'q ResourceQuota, 'hd, 'w) config go" where
  "exec P (Sched now) c =
     go_bind (sched_step P now (c_world c, c_sched c)) (\<lambda>(W, pc). Ok (c\<lparr>c_world := W, c_sched := pc\<rparr>))"
| "exec P (Task i) c =
     (if i < length (tasks (c_world c)) then
        let (u, v) = tasks (c_world c) ! i;
            (W, t) = task_start (p_sched P) u v ((c_world c)\<lparr>tasks := without i (tasks (c_world c))\<rparr>)
        in Ok (c\<lparr>c_world := W, c_running := c_running c @ [t]\<rparr>)
      else Ok c)"
| "exec P (Running i now) c =
     (if i < length (c_running c) then
        go_bind (task_step (p_sched P) now (c_running c ! i) (c_world c)) (\<lambda>(W, t).
          Ok (c\<lparr>c_world := W,
            c_running := (case t of None \<Rightarrow> without i (c_running c) | Some pc \<Rightarrow> (c_running c)[i := pc])\<rparr>))
      else Ok c)"
| "exec P (Flusher a clk) c =
     (if a \<in> set (flushers (objects (c_world c))) then
        go_bind (call a (\<lambda>p. go_bind (flushBackoffQCompleted clk p) (\<lambda>p'. Ok (p', ()))) (objects (c_world c)))
          (\<lambda>(objs, _). Ok (c\<lparr>c_world := (c_world c)\<lparr>objects := objs\<rparr>\<rparr>))
      else Ok c)"
| "exec P (UnitEvent n) c =
     (if c_unit c = UnitIdle then go_bind (unit_start (p_dispatch P) n (c_world c)) (\<lambda>pc. Ok (c\<lparr>c_unit := pc\<rparr>))
      else Ok c)"
| "exec P (UnitMethod t1 t2) c =
     go_bind (unit_finish t1 t2 (c_unit c) (c_world c)) (\<lambda>W. Ok (c\<lparr>c_world := W, c_unit := UnitIdle\<rparr>))"
| "exec P (DequeuedEvent t1 t2 n) c =
     go_bind (dequeued_listener (p_dispatch P) (sch_fw (p_sched P)) t1 t2 n (c_world c)) (\<lambda>W. Ok (c\<lparr>c_world := W\<rparr>))"
| "exec P (QueueEvent n) c =
     (if c_queue c = QueueIdle then
        go_bind (queue_start (p_dispatch P) n (c_world c)) (\<lambda>(W, pc). Ok (c\<lparr>c_world := W, c_queue := pc\<rparr>))
      else Ok c)"
| "exec P QueueMethod c =
     go_bind (queue_finish (p_rng P) (c_queue c) (c_world c)) (\<lambda>W. Ok (c\<lparr>c_world := W, c_queue := QueueIdle\<rparr>))"
| "exec P (Server w) c = Ok (c\<lparr>c_world := (c_world c)\<lparr>api := w\<rparr>\<rparr>)"
| "exec P (Quotas l) c =
     Ok (c\<lparr>c_world := (c_world c)\<lparr>plugins := (plugins (c_world c))\<lparr>rqLister := l\<rparr>\<rparr>\<rparr>)"

fun action_ok :: "('q, 'w) action \<Rightarrow> bool" where
  "action_ok (UnitEvent n) = event_ok n"
| "action_ok (DequeuedEvent t1 t2 n) = event_ok n"
| "action_ok (QueueEvent n) = event_ok n"
| "action_ok _ = True"

text \<open>
  The configurations that sequences of actions lead to; \<open>A\<close> restricts the actions, depending on the
  configuration they are taken in.
\<close>

inductive reachable ::
  "(('q, 'q ResourceQuota, 'hd, 'w) config \<Rightarrow> ('q, 'w) action \<Rightarrow> bool) \<Rightarrow> ('q, 'q ResourceQuota, 'hd, 'w) program
   \<Rightarrow> ('q, 'q ResourceQuota, 'hd, 'w) config \<Rightarrow> ('q, 'q ResourceQuota, 'hd, 'w) config \<Rightarrow> bool" for A P c0 where
  reach_start: "reachable A P c0 c0"
| reach_step: "reachable A P c0 c \<Longrightarrow> A c a \<Longrightarrow> exec P a c = Ok c' \<Longrightarrow> reachable A P c0 c'"

lemma reachable_mono:
  assumes "\<And>c a. A c a \<Longrightarrow> B c a"
  shows "reachable A P c0 c \<Longrightarrow> reachable B P c0 c"
  by (induction rule: reachable.induct) (auto intro: reachable.intros assms)

end
