(* ===== verification/System_Contract.thy ===== *)
theory System_Contract
  imports System
begin

text \<open>
  The invariant of the running program: the world is well-formed, and every pointer a goroutine
  keeps between two of its steps is valid. Each action keeps it, because no step removes a queue
  from the store, and none panics, except for a pop of a queue that has become empty.
\<close>

section \<open>The invariant\<close>

abbreviation valid :: "('q, 's, 'hd, 'w) world \<Rightarrow> addr set \<Rightarrow> bool" where
  "valid W as \<equiv> as \<subseteq> dom (objs (objects W))"

fun pc_ok :: "('q, 's, 'hd, 'w) world \<Rightarrow> 'q pc \<Rightarrow> bool" where
  "pc_ok W Idle = True"
| "pc_ok W (Loop v qs) = valid W (set qs)"
| "pc_ok W (Popping v q qs) = (valid W (set (q # qs)) \<and> v \<in> dom (vars W))"
| "pc_ok W (Filtering v q u qs) = (valid W (set (q # qs)) \<and> v \<in> dom (vars W) \<and> unit_ok u)"
| "pc_ok W (Checking v q u chk qs) = (valid W (set (q # qs)) \<and> v \<in> dom (vars W) \<and> unit_ok u)"
| "pc_ok W (Reserving v q u qs) = (valid W (set (q # qs)) \<and> v \<in> dom (vars W) \<and> unit_ok u)"
| "pc_ok W (Failing v q u qs) = (valid W (set (q # qs)) \<and> v \<in> dom (vars W) \<and> unit_ok u)"
| "pc_ok W (Returning v q u qs) = (valid W (set (q # qs)) \<and> v \<in> dom (vars W) \<and> unit_ok u)"

fun task_pc_ok :: "('q, 's, 'hd, 'w) world \<Rightarrow> 'q task_pc \<Rightarrow> bool" where
  "task_pc_ok W (Updating u v newQueueUnit) = (unit_ok u \<and> v \<in> dom (vars W))"
| "task_pc_ok W (Unreserving u v) = (unit_ok u \<and> v \<in> dom (vars W))"
| "task_pc_ok W (Retrying u v) = (unit_ok u \<and> v \<in> dom (vars W))"
| "task_pc_ok W (Requeueing u q) = (unit_ok u \<and> valid W {q})"

fun unit_pc_ok :: "('q, 's, 'hd, 'w) world \<Rightarrow> 'q unit_pc \<Rightarrow> bool" where
  "unit_pc_ok W UnitIdle = True"
| "unit_pc_ok W (UnitCall q c) = (valid W {q} \<and> obj_ok (UnitObj (call_unit c)))"

fun queue_pc_ok :: "queue_pc \<Rightarrow> bool" where
  "queue_pc_ok QueueIdle = True"
| "queue_pc_ok (QueueAdding q) = (QueuePolicy q = Priority_Name)"

text \<open>The points of all goroutines but the one that takes the step.\<close>

definition points_ok :: "('q, 's, 'hd, 'w) world \<Rightarrow> ('q, 's, 'hd, 'w) config \<Rightarrow> bool" where
  "points_ok W c \<longleftrightarrow> pc_ok W (c_sched c) \<and> (\<forall>t \<in> set (c_running c). task_pc_ok W t)
     \<and> unit_pc_ok W (c_unit c) \<and> queue_pc_ok (c_queue c)"

definition config_ok :: "('q, 's, 'hd, 'w) config \<Rightarrow> bool" where
  "config_ok c \<longleftrightarrow> system_ok (c_world c) \<and> points_ok (c_world c) c"

lemma valid_extends: "extends W W' \<Longrightarrow> valid W as \<Longrightarrow> valid W' as"
  by (auto simp: extends_def)

lemma pcs_extend:
  assumes "extends W W'"
  shows "pc_ok W pc \<Longrightarrow> pc_ok W' pc" "task_pc_ok W t \<Longrightarrow> task_pc_ok W' t" "unit_pc_ok W up \<Longrightarrow> unit_pc_ok W' up"
  using assms by (cases pc, simp_all add: extends_def, blast+, cases t, simp_all, blast+, cases up, simp_all, blast)

lemma points_extend: "extends W W' \<Longrightarrow> points_ok W c \<Longrightarrow> points_ok W' c"
  using pcs_extend [of W W'] by (simp add: points_ok_def)

lemma config_okD:
  assumes "config_ok c"
  shows "system_ok (c_world c)" "world_ok (c_world c)" "pc_ok (c_world c) (c_sched c)"
    "\<forall>t \<in> set (c_running c). task_pc_ok (c_world c) t" "unit_pc_ok (c_world c) (c_unit c)" "queue_pc_ok (c_queue c)"
  using assms by (simp_all add: config_ok_def points_ok_def system_ok_def)

lemma start_ok: "system_ok W \<Longrightarrow> config_ok (start_config W)"
  by (simp add: config_ok_def points_ok_def start_config_def)

text \<open>A step of one goroutine: its new point is valid, the others stay valid.\<close>

lemma config_ok_step:
  assumes "config_ok c" "system_ok W" "extends (c_world c) W"
  shows "config_ok (c\<lparr>c_world := W\<rparr>)"
    "pc_ok W pc \<Longrightarrow> config_ok (c\<lparr>c_world := W, c_sched := pc\<rparr>)"
    "\<forall>t \<in> set ts. task_pc_ok W t \<Longrightarrow> config_ok (c\<lparr>c_world := W, c_running := ts\<rparr>)"
    "unit_pc_ok W up \<Longrightarrow> config_ok (c\<lparr>c_world := W, c_unit := up\<rparr>)"
    "queue_pc_ok qp \<Longrightarrow> config_ok (c\<lparr>c_world := W, c_queue := qp\<rparr>)"
  using assms points_extend [OF assms(3), of c] by (simp_all add: config_ok_def points_ok_def)

section \<open>What the steps rely on\<close>

text \<open>The program as it is built: the in-tree framework and, around it, what Go and client-go document.\<close>

definition program_ok :: "('q, 'q ResourceQuota, 'hd, 'w) program \<Rightarrow> bool" where
  "program_ok P \<longleftrightarrow> range_ok (p_rng P) \<and> slice_sort_ok (p_srt P) \<and> filtering_ok (p_dispatch P)
     \<and> client_ok (sch_client (p_sched P)) \<and> in_tree_program P"

lemma program_okD:
  assumes "program_ok P"
  shows "framework_client (framework_methods (sch_fw (p_sched P)))"
    "client_ok (sch_client (p_sched P))" "range_ok (p_rng P)" "slice_sort_ok (p_srt P)" "filtering_ok (p_dispatch P)"
  using assms in_tree.framework_client_axioms by (auto simp: program_ok_def in_tree_program_def)

lemma system_ok_cong:
  assumes "system_ok W" "mqueue W' = mqueue W" "objects W' = objects W" "vars W' = vars W"
    and "set (tasks W') \<subseteq> set (tasks W)"
  shows "system_ok W'" "extends W W'"
  using assms by (auto simp: system_ok_def world_ok_def extends_def)

lemma queue_call_ok:
  assumes "system_ok W" "valid W {a}"
    and "\<And>p. queue_ok p \<Longrightarrow> \<exists>p' r. f p = Ok (p', r) \<and> queue_ok p' \<and> same_queue p p' \<and> R r"
  shows "\<exists>p' r. call a f (objects W) = Ok (store a p' (objects W), r) \<and> R r
    \<and> system_ok (W\<lparr>objects := store a p' (objects W)\<rparr>) \<and> extends W (W\<lparr>objects := store a p' (objects W)\<rparr>)"
proof -
  have W: "world_ok W" using assms(1) by (simp add: system_ok_def)
  obtain p where p: "objs (objects W) a = Some p" using assms(2) by auto
  from assms(3) [OF world_okD(2) [OF W p]] obtain p' r where
    p': "f p = Ok (p', r)" "queue_ok p'" "same_queue p p'" "R r" by blast
  have "system_ok (W\<lparr>objects := store a p' (objects W)\<rparr>)" "extends W (W\<lparr>objects := store a p' (objects W)\<rparr>)"
    using world_ok_store [OF W p p'(2,3)] assms(1) by (auto simp: system_ok_def extends_def)
  with call_Ok [of "objects W" a p f, OF p p'(1)] p'(4) show ?thesis by blast
qed

lemma ErrorFunc_get_ok:
  assumes "client_ok (sch_client s)" "system_ok W" "ErrorFunc_get s now u W = (W', r)"
  shows "system_ok W' \<and> extends W W' \<and> pred_option unit_ok r"
  using assms(1,3) system_ok_cong [OF assms(2), of W']
  by (auto simp: ErrorFunc_get_def Let_def client_ok_def unit_ok_def split: prod.splits sum.splits)

lemma ErrorFunc_add_ok:
  assumes "system_ok W" "valid W {q}" "unit_ok u"
  shows "\<exists>W'. ErrorFunc_add u q W = Ok W' \<and> system_ok W' \<and> extends W W'"
proof -
  have "\<exists>p' r. AddUnschedulableIfNotPresent p u = Ok (p', r) \<and> queue_ok p' \<and> same_queue p p' \<and> True"
    if "queue_ok p" for p using queue_ok_requeue [OF that assms(3)] by blast
  from queue_call_ok [OF assms(1,2), where R = "\<lambda>_. True", OF this] show ?thesis
    by (auto simp: ErrorFunc_add_def)
qed

section \<open>Every action keeps the invariant\<close>

text \<open>The race: the scheduler has seen a positive length and the queue is empty when it pops.\<close>

definition pop_race :: "('q, 's, 'hd, 'w) config \<Rightarrow> bool" where
  "pop_race c \<longleftrightarrow> (\<exists>v q qs p. c_sched c = Popping v q qs \<and> objs (objects (c_world c)) q = Some p \<and> PSQ_Length p = 0)"

text \<open>A step of the scheduler that returns a world and a point in order.\<close>

abbreviation sched_ok ::
  "('q, 'q ResourceQuota, 'hd, 'w) program \<Rightarrow> time \<Rightarrow> ('q, 'q ResourceQuota, 'hd, 'w) world \<Rightarrow> 'q pc \<Rightarrow> bool" where
  "sched_ok P now W pc \<equiv> \<exists>W' pc'. sched_step P now (W, pc) = Ok (W', pc') \<and> system_ok W' \<and> extends W W' \<and> pc_ok W' pc'"

lemma step_Idle:
  assumes "program_ok P" "system_ok W"
  shows "sched_ok P now W Idle"
proof -
  have rdy: "mq_ready (mqueue W, objects W)" using assms(2) by (simp add: system_ok_def world_ok_def)
  from SortedQueue_spec [OF program_okD(3,4) [OF assms(1)] rdy] obtain qs where
    qs: "SortedQueue (p_rng P) (p_srt P) (mqueue W, objects W) = Ok qs" "set qs = ran (queueMap (mqueue W))"
    by (auto simp: GetQueueByName_def)
  have "valid W (set qs)" using qs(2) rdy by (fastforce simp: mq_ready_def mq_inv_def map_ok_def ran_def)
  with qs(1) assms(2) show ?thesis by (simp add: system_ok_def world_ok_def extends_def)
qed

lemma step_Loop:
  assumes "system_ok W" "pc_ok W (Loop v qs)"
  shows "sched_ok P now W (Loop v qs)"
proof (cases qs)
  case (Cons q qs')
  then obtain p where p: "objs (objects W) q = Some p" using assms(2) by auto
  then have "system_ok (W\<lparr>vars := (vars W)(v \<mapsto> q)\<rparr>)"
    using assms(1) world_ok_var [of W q v] by (simp add: system_ok_def)
  with Cons p assms(2) show ?thesis by (auto simp: extends_def)
qed (use assms in simp)

lemma step_Popping:
  assumes "system_ok W" "pc_ok W (Popping v q qs)" "objs (objects W) q = Some p"
  shows "0 < PSQ_Length p \<Longrightarrow> sched_ok P now W (Popping v q qs)"
    "PSQ_Length p = 0 \<Longrightarrow> sched_step P now (W, Popping v q qs) = Panic IndexOutOfRange"
proof -
  have W: "world_ok W" using assms(1) by (simp add: system_ok_def)
  note qok = world_okD(2) [OF W assms(3)]
  show "sched_ok P now W (Popping v q qs)" if len: "0 < PSQ_Length p"
  proof -
    from queue_ok_pop [OF qok len] obtain p' u where
      p': "PSQ_Pop p = Ok (p', u)" "queue_ok p'" "same_queue p p'" "unit_ok u" by blast
    have "system_ok (W\<lparr>objects := store q p' (objects W)\<rparr>)"
      using world_ok_store [OF W assms(3) p'(2,3)] assms(1) by (simp add: system_ok_def)
    with assms(2,3) p' show ?thesis by (auto simp: call_def extends_def)
  qed
  show "sched_step P now (W, Popping v q qs) = Panic IndexOutOfRange" if "PSQ_Length p = 0"
    using that PSQ_Pop_empty [of p] PSQ_Length_zero [of p] qok assms(3) by (simp add: queue_ok_def call_def)
qed

lemma step_filter:
  assumes "system_ok W" "pc_ok W pc" "pc = Filtering v q u qs \<or> pc = Checking v q u chk qs"
  shows "sched_ok P now W pc"
proof -
  have W: "valid W (set (q # qs))" "v \<in> dom (vars W)" "unit_ok u" using assms(2,3) by auto
  have after: "\<exists>pc'. after_filter v q u qs r = Ok pc' \<and> pc_ok W pc'" if "\<And>st. r = Inl st \<Longrightarrow> \<exists>c m. st = NewStatus c m" for r
    using that W by (cases r) fastforce+
  from Filter_returns [OF W(3), of "p_quantity P" "p_order P" "plugins W"] obtain r where
    r: "Filter_start (p_order P) (plugins W) u = Ok r" by (auto simp: Filter_start_steps go_simps)
  have "\<exists>pc'. after_filter v q u qs r = Ok pc' \<and> pc_ok W pc'"
    using r Filter_start_status [of "p_order P" "plugins W" u] by (intro after) blast
  with r after [of "Filter_step (p_quantity P) (plugins W) chk"] Filter_step_status [of "p_quantity P" "plugins W" chk]
    assms show ?thesis by auto
qed

lemma step_reserve:
  assumes "program_ok P" "system_ok W" "pc_ok W (Reserving v q u qs)"
  shows "sched_ok P now W (Reserving v q u qs)"
proof -
  have W: "valid W (set (q # qs))" "v \<in> dom (vars W)" "unit_ok u" using assms(3) by auto
  obtain pl c m where r: "RunReservePluginsReserve (sch_fw (p_sched P)) (plugins W) u = Ok (pl, NewStatus c m)"
    using framework_client.reserve_returns [OF program_okD(1) [OF assms(1)] W(3), unfolded framework_methods_simps] by blast
  have "system_ok (W\<lparr>plugins := pl, tasks := tasks W @ [(u, v)]\<rparr>)"
    using world_ok_task [of "W\<lparr>plugins := pl\<rparr>" u v] system_ok_plugins [OF assms(2), of pl] W(2,3)
    by (auto simp: system_ok_def)
  with r W system_ok_plugins [OF assms(2)] show ?thesis by (auto simp: extends_def)
qed

lemma step_error:
  assumes "program_ok P" "system_ok W" "pc_ok W pc" "pc = Failing v q u qs \<or> pc = Returning v q u qs"
  shows "sched_ok P now W pc"
proof -
  have W: "valid W (set (q # qs))" "v \<in> dom (vars W)" "unit_ok u" using assms(3,4) by auto
  obtain W1 r where g: "ErrorFunc_get (p_sched P) now u W = (W1, r)" by force
  note get = ErrorFunc_get_ok [OF program_okD(2) [OF assms(1)] assms(2) g]
  have "valid W1 (set (q # qs))" using valid_extends [of W W1] get W(1) by blast
  moreover have "v \<in> dom (vars W1)" using get W(2) unfolding extends_def by blast
  ultimately have "sched_ok P now W (Failing v q u qs)" using g get by (cases r) auto
  moreover obtain W2 where "ErrorFunc_add u q W = Ok W2" "system_ok W2" "extends W W2"
    using ErrorFunc_add_ok [OF assms(2) _ W(3), of q] W(1) by auto
  then have "sched_ok P now W (Returning v q u qs)" using valid_extends [of W W2 "set qs"] W(1) by simp
  ultimately show ?thesis using assms(4) by blast
qed

lemma sched_step_ok:
  assumes "program_ok P" "config_ok c"
  shows "sched_ok P now (c_world c) (c_sched c)
    \<or> pop_race c \<and> sched_step P now (c_world c, c_sched c) = Panic IndexOutOfRange"
proof -
  note W = config_okD(1,3) [OF assms(2)]
  show ?thesis
  proof (cases "c_sched c")
    case Idle
    with step_Idle [OF assms(1) W(1)] show ?thesis by simp
  next
    case (Loop v qs)
    with step_Loop [OF W(1)] W(2) show ?thesis by metis
  next
    case (Popping v q qs)
    then obtain p where "objs (objects (c_world c)) q = Some p" using W(2) by auto
    with step_Popping [OF W(1) W(2) [unfolded Popping] this] Popping show ?thesis
      unfolding pop_race_def by (cases "PSQ_Length p = 0") auto
  next
    case (Filtering v q u qs)
    with step_filter [OF W] show ?thesis by blast
  next
    case (Checking v q u chk qs)
    with step_filter [OF W] show ?thesis by blast
  next
    case (Reserving v q u qs)
    with step_reserve [OF assms(1) W(1)] W(2) show ?thesis by metis
  next
    case (Failing v q u qs)
    with step_error [OF assms(1) W] show ?thesis by blast
  next
    case (Returning v q u qs)
    with step_error [OF assms(1) W] show ?thesis by blast
  qed
qed

lemma task_start_ok:
  assumes "config_ok c" "i < length (tasks (c_world c))"
  shows "\<exists>c'. exec P (Task i) c = Ok c' \<and> config_ok c'"
proof -
  let ?W = "c_world c"
  let ?W1 = "?W\<lparr>tasks := without i (tasks ?W)\<rparr>"
  note W = config_okD [OF assms(1)]
  obtain u v where uv: "tasks ?W ! i = (u, v)" by force
  then have ok: "unit_ok u" "v \<in> dom (vars ?W)" using world_okD(3) [OF W(2), of u v] nth_mem [OF assms(2)] by auto
  obtain W2 t where st: "task_start (p_sched P) u v ?W1 = (W2, t)" by force
  have W2: "system_ok W2" "extends ?W W2" "task_pc_ok W2 t"
    using st system_ok_cong [OF W(1), of W2] set_without [of i "tasks ?W"] ok
    by (auto simp: task_start_def split: prod.splits sum.splits)
  with W(4) pcs_extend(2) [OF W2(2)] have "\<forall>t' \<in> set (c_running c @ [t]). task_pc_ok W2 t'" by auto
  from config_ok_step(3) [OF assms(1) W2(1,2) this] show ?thesis using assms(2) uv st by simp
qed

lemma task_step_ok:
  assumes "program_ok P" "system_ok W" "task_pc_ok W t"
  shows "\<exists>W' r. task_step (p_sched P) now t W = Ok (W', r) \<and> system_ok W' \<and> extends W W' \<and> pred_option (task_pc_ok W') r"
proof (cases t)
  case (Updating u v newQueueUnit)
  with assms(3) system_ok_cong [OF assms(2), of "W\<lparr>api := w\<rparr>" for w] show ?thesis
    by (auto split: prod.splits sum.splits)
next
  case (Unreserving u v)
  then obtain pl where "RunReservePluginsUnreserve (sch_fw (p_sched P)) (plugins W) u = Ok pl"
    using framework_client.unreserve_returns [OF program_okD(1) [OF assms(1)], unfolded framework_methods_simps] assms(3) by auto
  with Unreserving assms(3) system_ok_plugins [OF assms(2)] show ?thesis by simp
next
  case (Retrying u v)
  then obtain q where q: "vars W v = Some q" using assms(3) by auto
  then have "valid W {q}" using assms(2) world_okD(4) [of W v q] by (auto simp: system_ok_def)
  moreover obtain W1 r where g: "ErrorFunc_get (p_sched P) now u W = (W1, r)" by force
  moreover note get = ErrorFunc_get_ok [OF program_okD(2) [OF assms(1)] assms(2) g]
  ultimately have "valid W1 {q}" using valid_extends by blast
  with Retrying q g get show ?thesis by (cases r) auto
next
  case (Requeueing u q)
  with ErrorFunc_add_ok [OF assms(2), of q u] assms(3) show ?thesis by auto
qed

lemma running_ok:
  assumes "program_ok P" "config_ok c" "i < length (c_running c)"
  shows "\<exists>c'. exec P (Running i now) c = Ok c' \<and> config_ok c'"
proof -
  note W = config_okD [OF assms(2)]
  have "task_pc_ok (c_world c) (c_running c ! i)" using W(4) assms(3) by simp
  from task_step_ok [OF assms(1) W(1) this, of now] obtain W' r where
    st: "task_step (p_sched P) now (c_running c ! i) (c_world c) = Ok (W', r)"
    and W': "system_ok W'" "extends (c_world c) W'" "pred_option (task_pc_ok W') r" by blast
  have "\<forall>t \<in> set (c_running c). task_pc_ok W' t" using W(4) pcs_extend(2) [OF W'(2)] by blast
  then have "\<forall>t \<in> set (case r of None \<Rightarrow> without i (c_running c) | Some pc \<Rightarrow> (c_running c)[i := pc]). task_pc_ok W' t"
    using W'(3) set_without [of i "c_running c"] set_update_subset_insert [of "c_running c" i] by (cases r) auto
  from config_ok_step(3) [OF assms(2) W'(1,2) this] show ?thesis using assms(3) st by simp
qed

lemma flusher_ok:
  assumes "config_ok c" "a \<in> set (flushers (objects (c_world c)))"
  shows "\<exists>c'. exec P (Flusher a clk) c = Ok c' \<and> config_ok c'"
proof -
  note W = config_okD [OF assms(1)]
  let ?f = "\<lambda>p. go_bind (flushBackoffQCompleted clk p) (\<lambda>p'. Ok (p', ()))"
  have "valid (c_world c) {a}"
    using assms(2) W(2) by (auto simp: world_ok_def mq_ready_def mq_inv_def store_ok_def)
  moreover have "\<exists>p' r. ?f p = Ok (p', r) \<and> queue_ok p' \<and> same_queue p p' \<and> True" if qok: "queue_ok p" for p
  proof -
    have "psq_inv p" using qok by (simp add: queue_ok_def)
    from psq.run_spec [OF this, of clk] obtain p' where
      "flushBackoffQCompleted clk p = Ok p'" "psq_inv p'" "same_queue p p'"
      "\<forall>k x. active_units p' k = Some x \<or> backoff_units p' k = Some x \<longrightarrow>
         active_units p k = Some x \<or> backoff_units p k = Some x" by blast
    moreover from this qok have "queue_ok p'" unfolding queue_ok_def by blast
    ultimately show ?thesis by simp
  qed
  ultimately obtain p' where "call a ?f (objects (c_world c)) = Ok (store a p' (objects (c_world c)), ())"
    "system_ok ((c_world c)\<lparr>objects := store a p' (objects (c_world c))\<rparr>)"
    "extends (c_world c) ((c_world c)\<lparr>objects := store a p' (objects (c_world c))\<rparr>)"
    using queue_call_ok [OF W(1), of a ?f "\<lambda>_. True"] by auto
  with config_ok_step(1) [OF assms(1)] assms(2) show ?thesis by simp
qed

lemma unit_lookup_ok:
  assumes "system_ok W" "obj_ok (UnitObj (call_unit cl))"
  shows "\<exists>up. unit_lookup cl W = Ok up \<and> unit_pc_ok W up"
proof -
  obtain ns where "consumer_namespace (call_unit cl) = Ok ns" using assms(2) by (auto simp: consumer_namespace_def)
  moreover have "valid W {a}" if "queueMap (mqueue W) ns = Some a" for a
    using that assms(1) by (fastforce simp: system_ok_def world_ok_def mq_ready_def mq_inv_def map_ok_def)
  ultimately show ?thesis
    using assms(2) by (auto simp: unit_lookup_def GetQueueByName_def mq_of_def split: option.splits)
qed

lemma unit_start_ok:
  assumes "filtering_ok dispatch" "system_ok W" "event_ok n"
  shows "\<exists>up. unit_start dispatch n W = Ok up \<and> unit_pc_ok W up"
proof (cases "dispatch queued_filter n")
  case (Some m)
  note ok = dispatched [OF assms(1) Some assms(3)]
  from Some ok show ?thesis
    by (cases m) (auto simp: unit_start_def unit_lookup_ok [OF assms(2)] dest!: passes_unit [OF disjI1])
qed (simp add: unit_start_def)

lemma unit_finish_ok:
  assumes "system_ok W" "unit_pc_ok W up"
  shows "\<exists>W'. unit_finish t1 t2 up W = Ok W' \<and> system_ok W' \<and> extends W W'"
proof (cases up)
  case (UnitCall a cl)
  have "\<exists>p' r. call_method t1 t2 cl p = Ok (p', r) \<and> queue_ok p' \<and> same_queue p p' \<and> True" if "queue_ok p" for p
    using assms(2) UnitCall queue_ok_add [OF that, of "call_unit cl" t1 t2] queue_ok_delete [OF that, of "call_unit cl"]
      queue_ok_update [OF that, of "call_unit cl" t1 t2]
    by (cases cl) (simp_all only: call_method.simps call_unit.simps unit_pc_ok.simps obj_ok.simps, blast+)
  moreover have "valid W {a}" using assms(2) UnitCall by simp
  ultimately obtain p' r where "call a (call_method t1 t2 cl) (objects W) = Ok (store a p' (objects W), r)"
    "system_ok (W\<lparr>objects := store a p' (objects W)\<rparr>)" "extends W (W\<lparr>objects := store a p' (objects W)\<rparr>)"
    using queue_call_ok [OF assms(1), of a "call_method t1 t2 cl" "\<lambda>_. True"] by blast
  with UnitCall show ?thesis by simp
qed (use assms in simp)

lemma queue_start_ok:
  assumes "filtering_ok dispatch" "system_ok W" "event_ok n"
  shows "\<exists>W' qp. queue_start dispatch n W = Ok (W', qp) \<and> system_ok W' \<and> extends W W' \<and> queue_pc_ok qp"
proof (cases "dispatch queue_filter n")
  case (Some m)
  note ok = dispatched [OF assms(1) Some assms(3)]
  show ?thesis
  proof (cases m)
    case (OnAdd x)
    with Some ok assms(2) show ?thesis by (auto simp: queue_start_def dest!: passes_queue)
  next
    case (OnUpdate x y)
    with ok obtain old q where "x = QueueObj old" "y = QueueObj q" "obj_ok (QueueObj q)" using passes_queue by fastforce
    with OnUpdate Some queue_handlers_ok(2) [OF assms(2), of q old] show ?thesis by (auto simp: queue_start_def)
  next
    case (OnDelete x)
    with ok obtain q where "x = QueueObj q" "obj_ok (QueueObj q)" using passes_queue by fastforce
    with OnDelete Some queue_handlers_ok(3) [OF assms(2), of q] show ?thesis by (auto simp: queue_start_def)
  qed
qed (use assms(2) in \<open>simp add: queue_start_def\<close>)

lemma queue_finish_ok:
  assumes "range_ok rng" "system_ok W" "queue_pc_ok qp"
  shows "\<exists>W'. queue_finish rng qp W = Ok W' \<and> system_ok W' \<and> extends W W'"
proof (cases qp)
  case (QueueAdding q)
  with system_ok_Add [OF assms(1,2), of q] assms(3) show ?thesis by auto
qed (use assms(2) in simp)

lemma listeners_ok:
  assumes "program_ok P" "config_ok c" "event_ok n"
  shows "\<exists>c'. exec P (UnitEvent n) c = Ok c' \<and> config_ok c'"
    "\<exists>c'. exec P (DequeuedEvent t1 t2 n) c = Ok c' \<and> config_ok c'"
    "\<exists>c'. exec P (QueueEvent n) c = Ok c' \<and> config_ok c'"
proof -
  note W = config_okD(1) [OF assms(2)] and d = program_okD(5) [OF assms(1)]
  show "\<exists>c'. exec P (UnitEvent n) c = Ok c' \<and> config_ok c'"
    using unit_start_ok [OF d W assms(3)] config_ok_step(4) [OF assms(2) W extends_refl] assms(2) by auto
  show "\<exists>c'. exec P (DequeuedEvent t1 t2 n) c = Ok c' \<and> config_ok c'"
    using listener.step_returns [OF dequeued_listener_ok [OF d program_okD(1) [OF assms(1)]] W assms(3), of t1 t2]
      config_ok_step(1) [OF assms(2)] by auto
  show "\<exists>c'. exec P (QueueEvent n) c = Ok c' \<and> config_ok c'"
    using queue_start_ok [OF d W assms(3)] config_ok_step(5) [OF assms(2)] assms(2) by fastforce
qed

lemma methods_ok:
  assumes "program_ok P" "config_ok c"
  shows "\<exists>c'. exec P (UnitMethod t1 t2) c = Ok c' \<and> config_ok c'"
    "\<exists>c'. exec P QueueMethod c = Ok c' \<and> config_ok c'"
proof -
  note W = config_okD [OF assms(2)]
  show "\<exists>c'. exec P (UnitMethod t1 t2) c = Ok c' \<and> config_ok c'"
    using unit_finish_ok [OF W(1,5), of t1 t2] config_ok_step(4) [OF assms(2), of _ UnitIdle] by auto
  show "\<exists>c'. exec P QueueMethod c = Ok c' \<and> config_ok c'"
    using queue_finish_ok [OF program_okD(3) [OF assms(1)] W(1,6)] config_ok_step(5) [OF assms(2), of _ QueueIdle] by auto
qed

lemma environment_ok:
  assumes "config_ok c"
  shows "\<exists>c'. exec P (Server w) c = Ok c' \<and> config_ok c'" "\<exists>c'. exec P (Quotas l) c = Ok c' \<and> config_ok c'"
proof -
  let ?W = "(c_world c)\<lparr>api := w\<rparr>"
  let ?V = "(c_world c)\<lparr>plugins := (plugins (c_world c))\<lparr>rqLister := l\<rparr>\<rparr>"
  note W = config_okD(1) [OF assms]
  show "\<exists>c'. exec P (Server w) c = Ok c' \<and> config_ok c'"
    using config_ok_step(1) [OF assms system_ok_cong [OF W, of ?W]] by simp
  show "\<exists>c'. exec P (Quotas l) c = Ok c' \<and> config_ok c'"
    using config_ok_step(1) [OF assms system_ok_cong [OF W, of ?V]] by simp
qed

lemma exec_ok:
  assumes "program_ok P" "config_ok c" "action_ok a"
  shows "(\<exists>c'. exec P a c = Ok c' \<and> config_ok c')
    \<or> (\<exists>now. a = Sched now) \<and> pop_race c \<and> exec P a c = Panic IndexOutOfRange"
proof (cases a)
  case (Sched now)
  with sched_step_ok [OF assms(1,2), of now] config_ok_step(2) [OF assms(2)] show ?thesis by fastforce
next
  case (Task i)
  with task_start_ok [OF assms(2)] assms(2) show ?thesis by (cases "i < length (tasks (c_world c))") auto
next
  case (Running i now)
  with running_ok [OF assms(1,2)] assms(2) show ?thesis by (cases "i < length (c_running c)") auto
next
  case (Flusher b clk)
  with flusher_ok [OF assms(2)] assms(2) show ?thesis
    by (cases "b \<in> set (flushers (objects (c_world c)))") auto
qed (use assms(3) listeners_ok [OF assms(1,2)] methods_ok [OF assms(1,2)] environment_ok [OF assms(2)] in auto)

lemma reachable_ok:
  assumes "program_ok P"
  shows "reachable (\<lambda>_. action_ok) P c0 c \<Longrightarrow> config_ok c0 \<Longrightarrow> config_ok c"
proof (induction rule: reachable.induct)
  case (reach_step c a c')
  with exec_ok [OF assms, of c a] show ?case by auto
qed

end
