(* ===== verification/System_Props.thy ===== *)
theory System_Props
  imports System_Contract Multi_Queue_Props
begin

text \<open>
  The properties of the whole program, from the world \<open>NewController\<close> makes: what every reachable
  configuration satisfies, the one panic that can be reached, and how events of the informers and
  the scheduler's own actions combine.
\<close>

section \<open>The start\<close>

lemma new_controller_in_tree:
  assumes "is_range ks (NewInTreeRegistry Q ord lister)"
  shows "NewController ks (NewInTreeRegistry Q ord lister) handle s0 client w i m =
    Ok (NewScheduler (in_tree_framework Q ord handle) client,
        \<lparr>mqueue = \<lparr>mq_fw = in_tree_framework Q ord handle, queueMap = Map.empty, mq_lessFunc = MultiQueueLess,
           mq_podInitialBackoffSeconds = i, mq_podMaxBackoffSeconds = m\<rparr>,
         objects = \<lparr>objs = Map.empty, next_addr = 0, flushers = []\<rparr>,
         plugins = \<lparr>reserved = Map.empty, quRecord = Map.empty, rqLister = lister handle\<rparr>,
         api = w, vars = Map.empty, next_var = 0, tasks = []\<rparr>)"
  using in_tree_orders [OF assms]
  by (auto simp: NewController_def NewFramework_def NewInTreeRegistry_def add_plugin_def Let_def
      RQ_New_def Priority_New_def NewMultiSchedulingQueue_def MultiQueueSortFunc_def
      in_tree_framework_def rq_plugin_def priority_plugin_def)

lemma new_controller_ok:
  assumes "NewController ks (NewInTreeRegistry Q ord lister) handle s0 client w i m = Ok (sch, W)"
    and "is_range ks (NewInTreeRegistry Q ord lister)"
  shows "system_ok W" "sch = NewScheduler (in_tree_framework Q ord handle) client"
  using assms(1) unfolding new_controller_in_tree [OF assms(2)]
  by (auto simp: system_ok_def world_ok_def mq_ready_def mq_inv_def store_ok_def map_ok_def queues_ok_def)

text \<open>The program of a controller, with any runtime that keeps the language's promises.\<close>

definition program_of ::
  "'q quantity_ops \<Rightarrow> ('q ResourceList \<Rightarrow> string list) \<Rightarrow> range_order \<Rightarrow> slice_sort \<Rightarrow> 'q dispatcher
   \<Rightarrow> ('q, 's, 'hd, 'w) Scheduler \<Rightarrow> ('q, 's, 'hd, 'w) program" where
  "program_of Q ord rng srt dispatch sch = \<lparr>p_quantity = Q, p_order = ord, p_rng = rng, p_srt = srt, p_dispatch = dispatch, p_sched = sch\<rparr>"

definition runtime_ok :: "range_order \<Rightarrow> slice_sort \<Rightarrow> 'q dispatcher \<Rightarrow> ('q, 'w) QueueClient \<Rightarrow> bool" where
  "runtime_ok rng srt dispatch client \<longleftrightarrow>
     range_ok rng \<and> slice_sort_ok srt \<and> filtering_ok dispatch \<and> client_ok client"

lemma program_of_ok:
  assumes "runtime_ok rng srt dispatch client"
  shows "program_ok (program_of Q ord rng srt dispatch (NewScheduler (in_tree_framework Q ord handle) client))"
  using assms by (auto simp: program_ok_def in_tree_program_def program_of_def runtime_ok_def NewScheduler_def)

abbreviation sample_registry :: "(int, int ResourceQuota, unit) Registry" where
  "sample_registry \<equiv> NewInTreeRegistry int_quantity cpu_order
     (\<lambda>_ _. Inr [\<lparr>quota_Name = ''a'', Hard = Some (cpu_list 10)\<rparr>])"

abbreviation no_quota :: "int ResourceQuota" where
  "no_quota \<equiv> \<lparr>reserved = Map.empty, quRecord = Map.empty, rqLister = (\<lambda>_. Inl [])\<rparr>"

lemma sample_range: "is_range [RQ_Name, Priority_Name] sample_registry"
  by (auto simp: is_range_def NewInTreeRegistry_def)

lemma sample_runtime: "runtime_ok name_order insertion_sort standard_dispatch job_client"
  by (simp add: runtime_ok_def name_order_ok insertion_sort_ok standard_dispatch_ok job_client_ok)

abbreviation sample_program :: "(int, int ResourceQuota, unit, unit) program" where
  "sample_program \<equiv> program_of int_quantity cpu_order name_order insertion_sort standard_dispatch (two_scheduler job_client)"

definition sample_start :: "(int, int ResourceQuota, unit, unit) world" where
  "sample_start =
    \<lparr>mqueue = \<lparr>mq_fw = in_tree_framework int_quantity cpu_order (), queueMap = Map.empty,
       mq_lessFunc = MultiQueueLess, mq_podInitialBackoffSeconds = 1, mq_podMaxBackoffSeconds = 20\<rparr>,
     objects = \<lparr>objs = Map.empty, next_addr = 0, flushers = []\<rparr>,
     plugins = \<lparr>reserved = Map.empty, quRecord = Map.empty,
       rqLister = (\<lambda>_. Inr [\<lparr>quota_Name = ''a'', Hard = Some (cpu_list 10)\<rparr>])\<rparr>,
     api = (), vars = Map.empty, next_var = 0, tasks = []\<rparr>"

lemma sample_controller:
  "NewController [RQ_Name, Priority_Name] sample_registry () no_quota job_client () 1 20 =
     Ok (two_scheduler job_client, sample_start)"
  using new_controller_in_tree [OF sample_range] by (simp add: sample_start_def)

section \<open>Sequences of actions\<close>

fun run_actions ::
  "('q, 'q ResourceQuota, 'hd, 'w) program \<Rightarrow> ('q, 'w) action list \<Rightarrow> ('q, 'q ResourceQuota, 'hd, 'w) config
   \<Rightarrow> ('q, 'q ResourceQuota, 'hd, 'w) config go" where
  "run_actions P [] c = Ok c"
| "run_actions P (a # as) c = go_bind (exec P a c) (run_actions P as)"

lemma reachable_run:
  "reachable (\<lambda>_. A) P c0 c \<Longrightarrow> list_all A as \<Longrightarrow> run_actions P as c = Ok c' \<Longrightarrow> reachable (\<lambda>_. A) P c0 c'"
  by (induction as arbitrary: c) (auto simp: go_bind_eq_Ok intro: reach_step)

lemma run_Sched:
  "run_actions P (map Sched ts) c =
     go_bind (sched_steps P ts (c_world c, c_sched c)) (\<lambda>(W, pc). Ok (c\<lparr>c_world := W, c_sched := pc\<rparr>))"
proof (induction ts arbitrary: c)
  case (Cons t ts)
  show ?case
    by (auto simp: Cons.IH go_bind_assoc intro!: go_bind_cong split: prod.splits)
qed simp

text \<open>One goroutine of the scheduler is running, or none.\<close>

definition task_config ::
  "('q, 's, 'hd, 'w) world \<times> 'q task_pc option \<Rightarrow> ('q, 's, 'hd, 'w) config" where
  "task_config = (\<lambda>(W, t). (start_config W)\<lparr>c_running := (case t of None \<Rightarrow> [] | Some pc \<Rightarrow> [pc])\<rparr>)"

lemma task_config_None: "task_config (W, None) = start_config W"
  by (simp add: task_config_def start_config_def)

lemma run_Running:
  "run_actions P (replicate n (Running 0 now)) (task_config x) =
     go_bind (task_steps (p_sched P) now n x) (\<lambda>y. Ok (task_config y))"
proof (induction n arbitrary: x)
  case (Suc n)
  obtain W t where x: "x = (W, t)" by force
  have step: "exec P (Running 0 now) (task_config (W, Some pc)) =
      go_bind (task_step (p_sched P) now pc W) (\<lambda>y. Ok (task_config y))" for pc
    by (auto simp: task_config_def start_config_def without_def intro!: go_bind_cong split: option.splits)
  have none: "run_actions P (replicate m (Running 0 now)) (task_config (W, None)) = Ok (task_config (W, None))" for m
    by (induction m) (simp_all add: task_config_def start_config_def)
  show ?case
  proof (cases t)
    case None
    with none [of "Suc n"] x show ?thesis by simp
  next
    case (Some pc)
    with x show ?thesis by (auto simp: step Suc.IH go_bind_assoc intro!: go_bind_cong simp del: exec.simps)
  qed
qed simp

lemma run_events:
  "run_actions P [UnitEvent n, UnitMethod t1 t2] (start_config W) =
     go_bind (queued_listener (p_dispatch P) t1 t2 n W) (\<lambda>W'. Ok (start_config W'))"
  "run_actions P [QueueEvent n, QueueMethod] (start_config W) =
     go_bind (queue_listener (p_dispatch P) (p_rng P) n W) (\<lambda>W'. Ok (start_config W'))"
  by (auto simp: queued_listener_steps queue_listener_steps start_config_def go_bind_assoc split_def
      intro!: go_bind_cong)

section \<open>Without interference\<close>



section \<open>The race, on an example\<close>

text \<open>The world of the example with queue "a" in the state \<open>p\<close>.\<close>

definition race_world :: "int PrioritySchedulingQueue \<Rightarrow> (int, int ResourceQuota, unit, unit) world" where
  "race_world p = sample_start\<lparr>mqueue := (mqueue sample_start)\<lparr>queueMap := [''a'' \<mapsto> 0]\<rparr>,
     objects := \<lparr>objs = [0 \<mapsto> p], next_addr = 1, flushers = [0]\<rparr>\<rparr>"

abbreviation empty_a :: "int PrioritySchedulingQueue" where
  "empty_a \<equiv> SetRunStatus (queue_for two_mq qa) True"

abbreviation full_a :: "int PrioritySchedulingQueue" where
  "full_a \<equiv> SetRunStatus pa True"

lemma race_queue_for: "queue_for (mqueue sample_start) qa = queue_for two_mq qa"
  by (simp add: queue_for_def sample_start_def two_mq_def)

lemma race_calls:
  "PSQ_Add 1 1 empty_a job = Ok (full_a, None)" "PSQ_Delete full_a job = Ok (empty_a, None)"
  "PSQ_Length full_a = 1" "PSQ_Pop empty_a = Panic IndexOutOfRange"
proof -
  show "PSQ_Add 1 1 empty_a job = Ok (full_a, None)"
    by (simp add: pa_def PSQ_Add_def SetRunStatus_def queue_for_def NewPrioritySchedulingQueue_def Heap_New_def
        NewWithRecorder_def Heap_Add_def heap_Push_def data_defs unitInfoKeyFunc_def Let_def NewQueueUnitInfo_def)
  show "PSQ_Delete full_a job = Ok (empty_a, None)"
    by (simp add: pa_def PSQ_Delete_def SetRunStatus_def unit_key_fold queue_for_def NewPrioritySchedulingQueue_def
        Heap_New_def NewWithRecorder_def Heap_GetByKey_def Heap_Delete_def unitInfoKeyFunc_def heap_Remove_def
        data_defs Let_def)
  show "PSQ_Length full_a = 1" using two_lengths(2) by (simp add: PSQ_Length_def SetRunStatus_def)
  show "PSQ_Pop empty_a = Panic IndexOutOfRange"
    by (simp add: PSQ_Pop_def SetRunStatus_def queue_for_def NewPrioritySchedulingQueue_def Heap_New_def
        NewWithRecorder_def Heap_Pop_def heap_Pop_def data_defs Let_def)
qed

lemma job_consumer: "consumer_namespace job = Ok ''a''" and job_queued: "Phase (qu_Status job) \<noteq> Dequeued"
  by (simp_all add: job_def sample_unit_def consumer_namespace_def Enqueued_def Dequeued_def)

lemma race_world_fields [simp]:
  "objs (objects (race_world p)) = [0 \<mapsto> p]" "queueMap (mqueue (race_world p)) = [''a'' \<mapsto> 0]"
  "(race_world p)\<lparr>objects := store 0 p' (objects (race_world p))\<rparr> = race_world p'"
  by (simp_all add: race_world_def store_def)

lemma race_add_queue:
  "run_actions sample_program [QueueEvent (OnAdd (QueueObj qa)), QueueMethod] (start_config sample_start) =
     Ok (start_config (race_world empty_a))"
proof -
  have ns: "q_Namespace qa = ''a''" by (simp add: qa_def sample_queue_def)
  have "queue_listener standard_dispatch name_order (OnAdd (QueueObj qa)) sample_start = Ok (race_world empty_a)"
    using race_queue_for
    by (simp add: queue_listener_def standard_dispatch_def AddQueue_def mq_of_def GetQueueByName_def
        MQ_Add_def alloc_def MQ_Run_def ranged_def name_order_def PSQ_Name_def ns Let_def)
      (simp add: race_world_def sample_start_def map_filter_simps GetRunStatus_def deref_def store_def
        PSQ_Run_def set_mq_def)
  then show ?thesis by (simp only: run_events) (simp add: program_of_def)
qed

lemma race_unit_event:
  assumes "c_unit c = UnitIdle" "queueMap (mqueue (c_world c)) = [''a'' \<mapsto> 0]" "objs (objects (c_world c)) 0 = Some p"
  shows "PSQ_Add 1 1 p job = Ok (p', None) \<Longrightarrow>
      run_actions sample_program [UnitEvent (OnAdd (UnitObj job)), UnitMethod 1 1] c =
        Ok (c\<lparr>c_world := (c_world c)\<lparr>objects := store 0 p' (objects (c_world c))\<rparr>\<rparr>)"
    "PSQ_Delete p job = Ok (p', None) \<Longrightarrow>
      run_actions sample_program [UnitEvent (OnDelete (UnitObj job)), UnitMethod 1 1] c =
        Ok (c\<lparr>c_world := (c_world c)\<lparr>objects := store 0 p' (objects (c_world c))\<rparr>\<rparr>)"
  using assms job_queued
  by (simp_all add: program_of_def unit_start_def unit_lookup_def standard_dispatch_def job_consumer
      GetQueueByName_def mq_of_def call_def)

text \<open>The scheduler has read a length of 1; then the unit is deleted.\<close>

definition race_config :: "(int, int ResourceQuota, unit, unit) config" where
  "race_config = (start_config ((race_world empty_a)\<lparr>next_var := 1, vars := [0 \<mapsto> 0]\<rparr>))\<lparr>c_sched := Popping 0 0 []\<rparr>"

lemma run_actions_append: "run_actions P (as @ bs) c = go_bind (run_actions P as c) (run_actions P bs)"
  by (induction as arbitrary: c) (auto simp: go_bind_assoc intro: go_bind_cong)

lemma race_config_reachable: "reachable (\<lambda>_. action_ok) sample_program (start_config sample_start) race_config"
proof -
  let ?W1 = "(race_world full_a)\<lparr>next_var := 1, vars := [0 \<mapsto> 0]\<rparr>"
  have added: "run_actions sample_program [UnitEvent (OnAdd (UnitObj job)), UnitMethod 1 1] (start_config (race_world empty_a)) =
      Ok (start_config (race_world full_a))"
    using race_unit_event(1) [of "start_config (race_world empty_a)" empty_a full_a] race_calls(1)
    by (simp add: start_config_def)
  have passing: "run_actions sample_program [Sched 5, Sched 5] (start_config (race_world full_a)) =
      Ok ((start_config ?W1)\<lparr>c_sched := Popping 0 0 []\<rparr>)"
    using race_calls(3)
    by (simp add: program_of_def SortedQueue_def ranged_def name_order_def map_filter_simps deref_def
        PSQ_QueueInfo_def insertion_sort_def start_config_def) (simp add: race_world_def sample_start_def)
  have deleted: "run_actions sample_program [UnitEvent (OnDelete (UnitObj job)), UnitMethod 1 1]
      ((start_config ?W1)\<lparr>c_sched := Popping 0 0 []\<rparr>) = Ok race_config"
    using race_unit_event(2) [of "(start_config ?W1)\<lparr>c_sched := Popping 0 0 []\<rparr>" full_a empty_a] race_calls(2)
    by (simp add: race_config_def start_config_def) (simp add: race_world_def store_def)
  have run: "run_actions sample_program ([QueueEvent (OnAdd (QueueObj qa)), QueueMethod]
      @ [UnitEvent (OnAdd (UnitObj job)), UnitMethod 1 1] @ [Sched 5, Sched 5]
      @ [UnitEvent (OnDelete (UnitObj job)), UnitMethod 1 1]) (start_config sample_start) = Ok race_config"
    by (simp only: run_actions_append race_add_queue added passing deleted go_bind.simps)
  have "obj_ok (QueueObj qa)" "obj_ok (UnitObj job)"
    by (simp_all add: qa_def job_def sample_queue_def sample_unit_def)
  then show ?thesis by (intro reachable_run [OF reach_start _ run]) simp
qed

text \<open>C35. A finding, the race: from the start of the program, with one queue and one unit, the scheduler
  reads a length of 1, the informer's goroutine handles the deletion of the unit, the scheduler pops
  the empty heap and the process panics.\<close>

theorem pop_race_reachable:
  "\<exists>c. reachable (\<lambda>_. action_ok) sample_program (start_config sample_start) c \<and> pop_race c
    \<and> exec sample_program (Sched 5) c = Panic IndexOutOfRange"
proof (intro exI [of _ race_config] conjI)
  show "pop_race race_config"
    using two_lengths(1) [of qa]
    by (simp add: pop_race_def race_config_def start_config_def PSQ_Length_def SetRunStatus_def)
  show "exec sample_program (Sched 5) race_config = Panic IndexOutOfRange"
    using race_calls(4) by (simp add: call_def race_config_def start_config_def)
qed (rule race_config_reachable)

section \<open>Reachable configurations\<close>

lemma started_ok:
  assumes "NewController ks (NewInTreeRegistry Q ord lister) handle s0 client w i m = Ok (sch, W)"
    and "is_range ks (NewInTreeRegistry Q ord lister)" "runtime_ok rng srt dispatch client"
  shows "config_ok (start_config W)" "program_ok (program_of Q ord rng srt dispatch sch)"
  using new_controller_ok [OF assms(1,2)] start_ok program_of_ok [OF assms(3), of Q ord handle] by simp_all





end
