(* ===== verification/System_Ledger.thy ===== *)
theory System_Ledger
  imports System_Props
begin

text \<open>
  The reservations in the running program. A predicate on \<^verbatim>\<open>QueueUnit\<close> objects that holds of all
  objects the API server and the informers deliver holds of every object that any goroutine or
  queue has (\<open>config_good\<close>), because the program only passes objects on. With it the plugin's
  ledger is kept in step with the record of units in every interleaving.
\<close>

section \<open>The objects a configuration holds\<close>

definition queue_units :: "'q PrioritySchedulingQueue \<Rightarrow> 'q QueueUnitInfo set" where
  "queue_units p = ran (active_units p) \<union> ran (backoff_units p)"

definition queues_good :: "('q QueueUnit \<Rightarrow> bool) \<Rightarrow> 'q objects \<Rightarrow> bool" where
  "queues_good G w \<longleftrightarrow> (\<forall>a p. objs w a = Some p \<longrightarrow> (\<forall>x \<in> queue_units p. G (Unit x)))"

definition world_good :: "('q QueueUnit \<Rightarrow> bool) \<Rightarrow> ('q, 's, 'hd, 'w) world \<Rightarrow> bool" where
  "world_good G W \<longleftrightarrow> queues_good G (objects W) \<and> (\<forall>t \<in> set (tasks W). G (Unit (fst t)))"

fun pc_good :: "('q QueueUnit \<Rightarrow> bool) \<Rightarrow> 'q pc \<Rightarrow> bool" where
  "pc_good G (Filtering v q u qs) = G (Unit u)"
| "pc_good G (Checking v q u chk qs) = G (Unit u)"
| "pc_good G (Reserving v q u qs) = G (Unit u)"
| "pc_good G (Failing v q u qs) = G (Unit u)"
| "pc_good G (Returning v q u qs) = G (Unit u)"
| "pc_good G _ = True"

fun task_good :: "('q QueueUnit \<Rightarrow> bool) \<Rightarrow> 'q task_pc \<Rightarrow> bool" where
  "task_good G (Updating u v newQueueUnit) = G (Unit u)"
| "task_good G (Unreserving u v) = G (Unit u)"
| "task_good G (Retrying u v) = G (Unit u)"
| "task_good G (Requeueing u q) = G (Unit u)"

fun unit_pc_good :: "('q QueueUnit \<Rightarrow> bool) \<Rightarrow> 'q unit_pc \<Rightarrow> bool" where
  "unit_pc_good G UnitIdle = True"
| "unit_pc_good G (UnitCall q c) = G (call_unit c)"

definition config_good :: "('q QueueUnit \<Rightarrow> bool) \<Rightarrow> ('q, 's, 'hd, 'w) config \<Rightarrow> bool" where
  "config_good G c \<longleftrightarrow> world_good G (c_world c) \<and> pc_good G (c_sched c)
     \<and> (\<forall>t \<in> set (c_running c). task_good G t) \<and> unit_pc_good G (c_unit c)"

text \<open>Objects that come in from outside.\<close>

definition client_good :: "('q QueueUnit \<Rightarrow> bool) \<Rightarrow> ('q, 'w) QueueClient \<Rightarrow> bool" where
  "client_good G client \<longleftrightarrow> (\<forall>w ns n w' u. api_Get client w ns n = (w', Inr u) \<longrightarrow> G u)"

fun obj_good :: "('q QueueUnit \<Rightarrow> bool) \<Rightarrow> 'q event_obj \<Rightarrow> bool" where
  "obj_good G (UnitObj u) = G u"
| "obj_good G _ = True"

fun event_good :: "('q QueueUnit \<Rightarrow> bool) \<Rightarrow> 'q notification \<Rightarrow> bool" where
  "event_good G (OnAdd x) = obj_good G x"
| "event_good G (OnUpdate x y) = (obj_good G x \<and> obj_good G y)"
| "event_good G (OnDelete x) = obj_good G x"

fun action_good :: "('q QueueUnit \<Rightarrow> bool) \<Rightarrow> ('q, 'w) action \<Rightarrow> bool" where
  "action_good G (UnitEvent n) = event_good G n"
| "action_good G (DequeuedEvent t1 t2 n) = event_good G n"
| "action_good G _ = True"

section \<open>The methods of a queue only move objects\<close>

lemma Unit_New [simp]: "Unit (NewQueueUnitInfo t1 t2 u) = u"
  by (simp add: NewQueueUnitInfo_def)

lemma pop_units:
  assumes "psq_inv p" "PSQ_Pop p = Ok (p', u)"
  shows "u \<in> queue_units p" "queue_units p' \<subseteq> queue_units p"
proof -
  have "active_units p \<noteq> Map.empty" using psq.pop_empty [OF assms(1)] assms(2) by force
  from psq.pop_spec [OF assms(1) this] assms(2) show "u \<in> queue_units p" "queue_units p' \<subseteq> queue_units p"
    by (auto simp: queue_units_def ran_def split: if_splits)
qed

lemma requeue_units:
  assumes "psq_inv p" "AddUnschedulableIfNotPresent p x = Ok (p', r)"
  shows "queue_units p' \<subseteq> insert x (queue_units p)"
  using psq.requeue_spec [OF assms(1), of x] assms(2)
  by (auto simp: queue_units_def ran_def split: if_splits)

lemma method_units:
  assumes "psq_inv p" "call_method t1 t2 c p = Ok (p', r)"
  shows "queue_units p' \<subseteq> insert (NewQueueUnitInfo t1 t2 (call_unit c)) (queue_units p)"
proof (cases c)
  case (CallAdd u)
  with psq.add_spec [OF assms(1), of t1 t2 u] assms(2) show ?thesis
    by (auto simp: queue_units_def ran_def split: if_splits)
next
  case (CallUpdate old u)
  with psq.update_spec [OF assms(1), of t1 t2 old u] assms(2) show ?thesis
    by (auto simp: queue_units_def ran_def split: if_splits)
next
  case (CallDelete u)
  with psq.delete_spec [OF assms(1), of u] assms(2) show ?thesis
    by (auto simp: queue_units_def ran_def split: if_splits)
qed

lemma flush_units:
  assumes "psq_inv p" "flushBackoffQCompleted clk p = Ok p'"
  shows "queue_units p' \<subseteq> queue_units p"
  using psq.run_spec [OF assms(1), of clk] assms(2)
  unfolding queue_units_def ran_def by auto blast+

lemma new_queue_units [simp]: "queue_units (queue_for mq q) = {}"
  by (simp add: queue_units_def queue_for_def NewPrioritySchedulingQueue_def Heap_New_def NewWithRecorder_def
      active_units_def backoff_units_def Heap_GetByKey_def ran_def Let_def)

lemma SetRunStatus_units [simp]: "queue_units (SetRunStatus p b) = queue_units p"
  by (simp add: queue_units_def SetRunStatus_def active_units_def backoff_units_def)

section \<open>Every action only moves objects, and reserves or unreserves those it holds\<close>

lemma call_good:
  assumes "queues_good G w" "call a f w = Ok (w', r)"
    and "\<And>p p'. objs w a = Some p \<Longrightarrow> f p = Ok (p', r) \<Longrightarrow> \<forall>x \<in> queue_units p. G (Unit x)
      \<Longrightarrow> \<forall>x \<in> queue_units p'. G (Unit x)"
  shows "queues_good G w'"
proof -
  from assms(2) obtain p p' where p: "objs w a = Some p" "f p = Ok (p', r)" "w' = store a p' w"
    by (auto simp: call_def deref_def go_simps split: option.splits)
  with assms(1) assms(3) [OF p(1,2)] show ?thesis by (auto simp: queues_good_def)
qed

text \<open>What an action does to the state of the plugin.\<close>

definition plugin_step ::
  "'q quantity_ops \<Rightarrow> ('q ResourceList \<Rightarrow> string list) \<Rightarrow> ('q QueueUnit \<Rightarrow> bool)
   \<Rightarrow> 'q ResourceQuota \<Rightarrow> 'q ResourceQuota \<Rightarrow> bool" where
  "plugin_step Q ord G rq rq' \<longleftrightarrow> (\<exists>l. rq' = rq\<lparr>rqLister := l\<rparr>)
     \<or> (\<exists>qu. G (Unit qu) \<and> (rq' = fst (Reserve Q ord rq qu) \<or> rq' = Unreserve Q ord rq qu))"

lemma plugin_step_refl [simp]: "plugin_step Q ord G rq rq"
  unfolding plugin_step_def by (rule disjI1, rule exI [of _ "rqLister rq"]) simp

lemma plugin_step_call [simp]:
  "G (Unit qu) \<Longrightarrow> plugin_step Q ord G rq (fst (Reserve Q ord rq qu))"
  "G (Unit qu) \<Longrightarrow> plugin_step Q ord G rq (Unreserve Q ord rq qu)"
  unfolding plugin_step_def by blast+

lemma ErrorFunc_get_good:
  assumes "client_good G (sch_client s)" "world_good G W" "ErrorFunc_get s now u W = (W', r)"
  shows "world_good G W' \<and> plugins W' = plugins W \<and> (\<forall>x. r = Some x \<longrightarrow> G (Unit x))"
  using assms by (auto simp: ErrorFunc_get_def client_good_def world_good_def Let_def split: prod.splits sum.splits)

lemma ErrorFunc_add_good:
  assumes "world_ok W" "world_good G W" "G (Unit u)" "ErrorFunc_add u q W = Ok W'"
  shows "world_good G W' \<and> plugins W' = plugins W"
proof -
  from assms(4) obtain w r where c: "call q (\<lambda>p. AddUnschedulableIfNotPresent p u) (objects W) = Ok (w, r)"
    "W' = W\<lparr>objects := w\<rparr>" by (auto simp: ErrorFunc_add_def go_simps)
  have "queues_good G w"
    by (rule call_good [OF _ c(1)])
      (use assms(2,3) requeue_units world_okD(2) [OF assms(1)] in \<open>auto simp: world_good_def queue_ok_def\<close>, blast)
  with c(2) assms(2) show ?thesis by (simp add: world_good_def)
qed

lemma sched_step_good:
  assumes "sch_fw (p_sched P) = in_tree_framework Q ord handle" "client_good G (sch_client (p_sched P))"
    and "world_ok W" "world_good G W" "pc_good G pc" "sched_step P now (W, pc) = Ok (W', pc')"
  shows "world_good G W' \<and> pc_good G pc' \<and> plugin_step Q ord G (plugins W) (plugins W')"
proof (cases pc)
  case Idle
  with assms(4,6) show ?thesis by (auto simp: go_simps world_good_def)
next
  case (Loop v qs)
  with assms(4,6) show ?thesis by (cases qs) (auto simp: go_simps world_good_def)
next
  case (Popping v q qs)
  with assms(6) obtain w u where c: "call q PSQ_Pop (objects W) = Ok (w, u)"
    "W' = W\<lparr>objects := w\<rparr>" "pc' = Filtering v q u qs" by (auto simp: go_simps)
  then obtain p p' where p: "objs (objects W) q = Some p" "PSQ_Pop p = Ok (p', u)"
    by (auto simp: call_def deref_def go_simps split: option.splits)
  have inv: "psq_inv p" using world_okD(2) [OF assms(3) p(1)] by (simp add: queue_ok_def)
  have "queues_good G w"
    by (rule call_good [OF _ c(1)])
      (use assms(4) pop_units(2) world_okD(2) [OF assms(3)] in \<open>auto simp: world_good_def queue_ok_def\<close>, blast)
  moreover have "G (Unit u)" using pop_units(1) [OF inv p(2)] p(1) assms(4) by (auto simp: world_good_def queues_good_def)
  ultimately show ?thesis using c assms(4) by (simp add: world_good_def)
next
  case (Filtering v q u qs)
  with assms(4,5,6) show ?thesis by (auto simp: go_simps elim: after_filter_cases)
next
  case (Checking v q u chk qs)
  with assms(4,5,6) show ?thesis by (auto simp: go_simps elim: after_filter_cases)
next
  case (Reserving v q u qs)
  with assms(1,4,5,6) show ?thesis
    by (auto simp: go_simps world_good_def split: if_splits)
next
  case (Failing v q u qs)
  obtain W1 r where g: "ErrorFunc_get (p_sched P) now u W = (W1, r)" by force
  with ErrorFunc_get_good [OF assms(2,4) g] Failing assms(6) show ?thesis by (cases r) auto
next
  case (Returning v q u qs)
  with assms(6) obtain W1 where "ErrorFunc_add u q W = Ok W1" "W' = W1" "pc' = Loop v qs" by (auto simp: go_simps)
  with ErrorFunc_add_good [OF assms(3,4)] Returning assms(5) show ?thesis by fastforce
qed

lemma task_start_good:
  assumes "world_good G W" "G (Unit u)" "task_start s u v W = (W', t)"
  shows "world_good G W' \<and> plugins W' = plugins W \<and> task_good G t"
  using assms by (auto simp: task_start_def world_good_def split: prod.splits sum.splits)

lemma task_step_good:
  assumes "sch_fw s = in_tree_framework Q ord handle" "client_good G (sch_client s)"
    and "world_ok W" "world_good G W" "task_good G t" "task_step s now t W = Ok (W', r)"
  shows "world_good G W' \<and> plugin_step Q ord G (plugins W) (plugins W') \<and> (\<forall>pc. r = Some pc \<longrightarrow> task_good G pc)"
proof (cases t)
  case (Updating u v newQueueUnit)
  with assms(4-6) show ?thesis by (auto simp: world_good_def split: prod.splits sum.splits)
next
  case (Unreserving u v)
  with assms(1,4-6) show ?thesis by (auto simp: go_simps world_good_def)
next
  case (Retrying u v)
  obtain W1 x where g: "ErrorFunc_get s now u W = (W1, x)" by force
  with ErrorFunc_get_good [OF assms(2,4) g] Retrying assms(6) show ?thesis
    by (cases x) (auto split: option.splits)
next
  case (Requeueing u q)
  with assms(6) obtain W1 where "ErrorFunc_add u q W = Ok W1" "W' = W1" "r = None" by (auto simp: go_simps)
  with ErrorFunc_add_good [OF assms(3,4)] Requeueing assms(5) show ?thesis by fastforce
qed

lemma dispatched_good:
  assumes "filtering_ok dispatch" "dispatch f n = Some m" "event_good G n"
  shows "event_good G m"
  using assms(2,3) by (cases n) (auto simp: filtering_okD [OF assms(1)] split: if_splits)

lemma unit_lookup_good:
  assumes "G (call_unit c)" "unit_lookup c W = Ok up"
  shows "unit_pc_good G up"
  using assms by (auto simp: unit_lookup_def go_simps split: option.splits)

lemma as_unit_Ok: "as_unit x = Ok u \<longleftrightarrow> x = UnitObj u"
  by (cases x) auto

lemma unit_start_good:
  assumes "filtering_ok dispatch" "event_good G n" "unit_start dispatch n W = Ok up"
  shows "unit_pc_good G up"
proof (cases "dispatch queued_filter n")
  case (Some m)
  note good = dispatched_good [OF assms(1) Some assms(2)]
  from good Some assms(3) show ?thesis
    by (cases m) (auto simp: unit_start_def go_simps as_unit_Ok, (erule unit_lookup_good [rotated], simp)+)
qed (use assms(3) in \<open>simp add: unit_start_def\<close>)

lemma unit_finish_good:
  assumes "world_ok W" "world_good G W" "unit_pc_good G up" "unit_finish t1 t2 up W = Ok W'"
  shows "world_good G W' \<and> plugins W' = plugins W"
proof (cases up)
  case (UnitCall a c)
  with assms(4) obtain w r where c: "call a (call_method t1 t2 c) (objects W) = Ok (w, r)" "W' = W\<lparr>objects := w\<rparr>"
    by (auto simp: go_simps)
  have "\<forall>x \<in> queue_units p'. G (Unit x)" if "objs (objects W) a = Some p" "call_method t1 t2 c p = Ok (p', r)"
    "\<forall>x \<in> queue_units p. G (Unit x)" for p p'
    using method_units [OF _ that(2)] world_okD(2) [OF assms(1) that(1)] that(3) assms(3) UnitCall
    by (auto simp: queue_ok_def)
  with call_good [OF _ c(1), of G] assms(2) have "queues_good G w" by (simp add: world_good_def)
  with c(2) assms(2) show ?thesis by (simp add: world_good_def)
qed (use assms in simp)

lemma dequeued_listener_good:
  assumes "filtering_ok dispatch" "event_good G n" "world_good G W"
    and "dequeued_listener dispatch (in_tree_framework Q ord handle) t1 t2 n W = Ok W'"
  shows "world_good G W' \<and> plugin_step Q ord G (plugins W) (plugins W')"
proof (cases "dispatch dequeued_filter n")
  case (Some m)
  note good = dispatched_good [OF assms(1) Some assms(2)]
  from good Some assms(3,4) show ?thesis
    by (cases m) (auto simp: dequeued_listener_def handler_defs go_simps as_unit_Ok world_good_def split: if_splits)
qed (use assms(3,4) in \<open>simp add: dequeued_listener_def\<close>)

lemma update_good:
  assumes "queues_good G w" "mq_inv (mq, w)" "MQ_Update old q (mq, w) = (mq', w')"
  shows "queues_good G w'"
  using assms by (auto simp: queues_good_def MQ_Update_def alloc_def Let_def split: if_splits)

lemma add_good:
  assumes "range_ok rng" "queues_good G w" "mq_inv (mq, w)" "MQ_Add rng q (mq, w) = Ok (mq', w')"
  shows "queues_good G w'"
proof -
  from MQ_Add_spec [OF assms(1,3), of q] assms(4) obtain w1 where
    w1: "(mq', w1) = MQ_Update q q (mq, w)" "started (ran (queueMap mq')) w1 w'" by auto
  have "queues_good G w1" using update_good [OF assms(2,3) w1(1) [symmetric]] .
  with w1(2) show ?thesis by (auto simp: queues_good_def started_def split: if_splits)
qed

lemma queue_steps_good:
  assumes "world_ok W" "world_good G W"
  shows "queue_start dispatch n W = Ok (W', qp) \<Longrightarrow> world_good G W' \<and> plugins W' = plugins W"
    "range_ok rng \<Longrightarrow> queue_finish rng qp W = Ok W' \<Longrightarrow> world_good G W' \<and> plugins W' = plugins W"
proof -
  have inv: "mq_inv (mqueue W, objects W)" using assms(1) by (simp add: world_ok_def mq_ready_def)
  have upd: "world_good G (set_mq (MQ_Update old q (mq_of W)) W)" for old q
    using update_good [OF _ inv, of G old q] assms(2)
    by (cases "MQ_Update old q (mqueue W, objects W)") (auto simp: world_good_def set_mq_def mq_of_def)
  have del: "world_good G (set_mq (MQ_Delete q (mq_of W)) W)" for q
    using assms(2) by (simp add: world_good_def set_mq_def mq_of_def MQ_Delete_def)
  have [simp]: "plugins (set_mq m W) = plugins W" for m by (simp add: set_mq_def)
  show "world_good G W' \<and> plugins W' = plugins W" if "queue_start dispatch n W = Ok (W', qp)"
    using that assms(2) upd del
    by (auto simp: queue_start_def UpdateQueue_def DeleteQueue_def go_simps split: option.splits notification.splits)
  show "world_good G W' \<and> plugins W' = plugins W" if "range_ok rng" "queue_finish rng qp W = Ok W'"
    using that assms(2) add_good [OF that(1) _ inv, of G]
    by (cases qp) (auto simp: go_simps world_good_def set_mq_def mq_of_def)
qed

lemma flusher_good:
  assumes "config_ok c" "config_good G c" "exec P (Flusher a clk) c = Ok c'"
  shows "config_good G c' \<and> plugins (c_world c') = plugins (c_world c)"
proof (cases "a \<in> set (flushers (objects (c_world c)))")
  case True
  let ?f = "\<lambda>p. go_bind (flushBackoffQCompleted clk p) (\<lambda>p'. Ok (p', ()))"
  from True assms(3) obtain w r where
    c: "call a ?f (objects (c_world c)) = Ok (w, r)" "c' = c\<lparr>c_world := (c_world c)\<lparr>objects := w\<rparr>\<rparr>"
    by (auto simp: go_simps)
  have "\<forall>x \<in> queue_units p'. G (Unit x)" if "objs (objects (c_world c)) a = Some p" "?f p = Ok (p', r)"
    "\<forall>x \<in> queue_units p. G (Unit x)" for p p'
    using flush_units [of p clk p'] world_okD(2) [OF config_okD(2) [OF assms(1)] that(1)] that(2,3)
    by (auto simp: go_simps queue_ok_def)
  with call_good [OF _ c(1), of G] assms(2) have "queues_good G w" by (simp add: config_good_def world_good_def)
  with c(2) assms(2) show ?thesis by (simp add: config_good_def world_good_def)
qed (use assms in simp)

lemma tasks_good:
  assumes "sch_fw (p_sched P) = in_tree_framework Q ord handle" "client_good G (sch_client (p_sched P))"
    and "config_ok c" "config_good G c"
  shows "exec P (Task i) c = Ok c' \<Longrightarrow> config_good G c' \<and> plugin_step Q ord G (plugins (c_world c)) (plugins (c_world c'))"
    "exec P (Running i now) c = Ok c' \<Longrightarrow> config_good G c' \<and> plugin_step Q ord G (plugins (c_world c)) (plugins (c_world c'))"
proof -
  have W: "world_ok (c_world c)" "world_good G (c_world c)" "\<forall>t \<in> set (c_running c). task_good G t"
    using assms(3,4) by (simp_all add: config_okD config_good_def)
  show "config_good G c' \<and> plugin_step Q ord G (plugins (c_world c)) (plugins (c_world c'))" if ex: "exec P (Task i) c = Ok c'"
  proof (cases "i < length (tasks (c_world c))")
    case True
    let ?W = "(c_world c)\<lparr>tasks := without i (tasks (c_world c))\<rparr>"
    obtain u v where uv: "tasks (c_world c) ! i = (u, v)" by force
    then have "G (Unit u)" using nth_mem [OF True] W(2) by (auto simp: world_good_def)
    moreover obtain W' t where st: "task_start (p_sched P) u v ?W = (W', t)" by force
    moreover have "world_good G ?W" using W(2) set_without [of i "tasks (c_world c)"] by (auto simp: world_good_def)
    ultimately have "world_good G W'" "plugins W' = plugins (c_world c)" "task_good G t"
      using task_start_good [of G ?W u "p_sched P" v W' t] by simp_all
    with True uv st ex assms(4) show ?thesis by (auto simp: config_good_def split: option.splits)
  qed (use ex assms(4) in simp)
  show "config_good G c' \<and> plugin_step Q ord G (plugins (c_world c)) (plugins (c_world c'))" if ex: "exec P (Running i now) c = Ok c'"
  proof (cases "i < length (c_running c)")
    case True
    then obtain W' r where st: "task_step (p_sched P) now (c_running c ! i) (c_world c) = Ok (W', r)"
      and c': "c' = c\<lparr>c_world := W', c_running := (case r of None \<Rightarrow> without i (c_running c) | Some pc \<Rightarrow> (c_running c)[i := pc])\<rparr>"
      using ex by (auto simp: go_simps)
    have "task_good G (c_running c ! i)" using W(3) True by simp
    note good = task_step_good [OF assms(1,2) W(1,2) this st]
    have "\<forall>t \<in> set (c_running c'). task_good G t"
      using good W(3) c' set_without [of i "c_running c"] set_update_subset_insert [of "c_running c" i]
      by (cases r) (simp_all, blast+)
    with good c' assms(4) show ?thesis by (simp add: config_good_def)
  qed (use ex assms(4) in simp)
qed

lemma exec_good:
  assumes "sch_fw (p_sched P) = in_tree_framework Q ord handle" "client_good G (sch_client (p_sched P))"
    and "filtering_ok (p_dispatch P)" "range_ok (p_rng P)"
    and "config_ok c" "config_good G c" "action_good G a" "exec P a c = Ok c'"
  shows "config_good G c' \<and> plugin_step Q ord G (plugins (c_world c)) (plugins (c_world c'))"
proof -
  have W: "world_ok (c_world c)" "world_good G (c_world c)" "pc_good G (c_sched c)" "unit_pc_good G (c_unit c)"
    using assms(5,6) by (simp_all add: config_okD config_good_def)
  note good = config_good_def
  show ?thesis
  proof (cases a)
    case (Sched now)
    with assms(8) sched_step_good [OF assms(1,2) W(1-3), of now] assms(6) show ?thesis
      by (auto simp: go_simps good)
  next
    case (UnitEvent n)
    with assms(6,7,8) unit_start_good [OF assms(3)] show ?thesis by (auto simp: go_simps good split: if_splits)
  next
    case (UnitMethod t1 t2)
    with assms(6,8) unit_finish_good [OF W(1,2,4)] show ?thesis by (auto simp: go_simps good)
  next
    case (DequeuedEvent t1 t2 n)
    with assms(1,6,7,8) dequeued_listener_good [OF assms(3) _ W(2)] show ?thesis by (auto simp: go_simps good)
  next
    case (QueueEvent n)
    with assms(6,8) queue_steps_good(1) [OF W(1,2)] show ?thesis by (auto simp: go_simps good split: if_splits)
  next
    case QueueMethod
    with assms(6,8) queue_steps_good(2) [OF W(1,2) assms(4)] show ?thesis by (auto simp: go_simps good)
  next
    case (Server w)
    with assms(6,8) show ?thesis by (auto simp: good world_good_def)
  next
    case (Quotas l)
    with assms(6,8) show ?thesis by (auto simp: good world_good_def plugin_step_def)
  qed (use assms(8) tasks_good [OF assms(1,2,5,6)] flusher_good [OF assms(5,6)] in auto)
qed

section \<open>The ledger in every interleaving\<close>

text \<open>
  \<open>R\<close> gives the request of the unit of each key: the resources of a unit do not change while it
  exists, so all its objects agree with \<open>R\<close>.
\<close>

definition registered ::
  "('q \<Rightarrow> rat) \<Rightarrow> ('q ResourceList \<Rightarrow> string list) \<Rightarrow> (string \<Rightarrow> 'q QueueUnit) \<Rightarrow> 'q QueueUnit \<Rightarrow> bool" where
  "registered amount ord R u \<longleftrightarrow> same_unit (R (unit_key u)) u \<and> ranges ord u \<and> nonneg amount u"

definition recorded_units :: "(string \<Rightarrow> 'q QueueUnit) \<Rightarrow> 'q ResourceQuota \<Rightarrow> (string \<rightharpoonup> 'q QueueUnit)" where
  "recorded_units R rq k = (if quRecord rq k = None then None else Some (R k))"

lemma ledger_ok_same:
  assumes "ledger_ok Q amount rq L" "dom L' = dom L"
    and same: "\<And>k u u'. L k = Some u \<Longrightarrow> L' k = Some u' \<Longrightarrow> same_unit u' u"
  shows "ledger_ok Q amount rq L'"
proof -
  note L = ledger_okD [OF assms(1)]
  have eq: "qu_Namespace (the (L' k)) = qu_Namespace (the (L k))" "request amount (the (L' k)) = request amount (the (L k))"
    if "k \<in> dom L" for k
  proof -
    have "k \<in> dom L'" using that assms(2) by simp
    with that obtain u u' where u: "L k = Some u" "L' k = Some u'" by (meson domD)
    with same [OF u] show "qu_Namespace (the (L' k)) = qu_Namespace (the (L k))"
      "request amount (the (L' k)) = request amount (the (L k))"
      by (simp_all add: same_unit_def request_def fun_eq_iff)
  qed
  have "ledger_sum amount L' ns r = ledger_sum amount L ns r" for ns r
    unfolding ledger_sum_def by (rule sum.cong) (use assms(2) eq in \<open>simp_all cong: conj_cong\<close>)
  moreover have "nonneg amount u' \<and> reserved rq (qu_Namespace u') \<noteq> None" if "L' k = Some u'" for k u'
  proof -
    have "k \<in> dom L" unfolding assms(2) [symmetric] using that by (rule domI)
    then obtain u where u: "L k = Some u" by auto
    with same [OF u that] L(3,4) [OF u] show ?thesis by (simp add: same_unit_def nonneg_def request_def)
  qed
  ultimately show ?thesis unfolding ledger_ok_def using L(1,2,5) assms(2) by simp
qed

lemma plugin_step_ledger:
  assumes "quantity_laws Q amount" "plugin_step Q ord (registered amount ord R) rq rq'"
    and "ledger_ok Q amount rq (recorded_units R rq)"
  shows "ledger_ok Q amount rq' (recorded_units R rq')"
proof -
  have step: "ledger_ok Q amount (rq_step Q ord rq p) (recorded_units R (rq_step Q ord rq p))"
    if p: "registered amount ord R (Unit (op_unit p))" for p
  proof -
    have R: "QueueUnitToKey x = unit_key (Unit x)" for x :: "'a QueueUnitInfo"
      by (simp add: QueueUnitToKey_def unit_key_def)
    have ok: "ledger_ok Q amount (rq_step Q ord rq p) (ledger_step (recorded_units R rq) p)"
      using p assms(3) by (intro rq_step_ledger [OF assms(1)])
        (auto simp: registered_def recorded_units_def R split: if_splits)
    then show ?thesis
    proof (rule ledger_ok_same)
      show "dom (recorded_units R (rq_step Q ord rq p)) = dom (ledger_step (recorded_units R rq) p)"
        using ledger_okD(2) [OF ok] by (auto simp: recorded_units_def dom_def split: if_splits)
      show "same_unit u' u" if "ledger_step (recorded_units R rq) p k = Some u"
        "recorded_units R (rq_step Q ord rq p) k = Some u'" for k u u'
        using that p by (cases p) (auto simp: recorded_units_def registered_def R same_unit_def split: if_splits)
    qed
  qed
  have [simp]: "recorded_units R (rq\<lparr>rqLister := l\<rparr>) = recorded_units R rq" for l
    by (simp add: recorded_units_def fun_eq_iff)
  have lister: "ledger_ok Q amount (rq\<lparr>rqLister := l\<rparr>) (recorded_units R rq)" for l
    using assms(3) by (simp add: ledger_ok_def amount_defs)
  from assms(2) show ?thesis
    unfolding plugin_step_def using step [of "OpReserve _"] step [of "OpUnreserve _"] lister by auto
qed

lemma reachable_ledger_ok:
  assumes "quantity_laws Q amount" "program_ok P" "sch_fw (p_sched P) = in_tree_framework Q ord handle"
    and "client_good (registered amount ord R) (sch_client (p_sched P))"
    and "config_ok c0" "config_good (registered amount ord R) c0"
    and "ledger_ok Q amount (plugins (c_world c0)) (recorded_units R (plugins (c_world c0)))"
  shows "reachable (\<lambda>_ a. action_ok a \<and> action_good (registered amount ord R) a) P c0 c \<Longrightarrow>
    config_ok c \<and> config_good (registered amount ord R) c
    \<and> ledger_ok Q amount (plugins (c_world c)) (recorded_units R (plugins (c_world c)))"
proof (induction rule: reachable.induct)
  case (reach_step c a c')
  then have "config_ok c'" using exec_ok [OF assms(2), of c a] by auto
  moreover have "config_good (registered amount ord R) c'
      \<and> plugin_step Q ord (registered amount ord R) (plugins (c_world c)) (plugins (c_world c'))"
    using exec_good [OF assms(3,4) program_okD(5,3) [OF assms(2)]] reach_step by blast
  ultimately show ?case using plugin_step_ledger [OF assms(1)] reach_step.IH by blast
qed (use assms in simp)

text \<open>C3. Invariant of the reservations: in every interleaving of the scheduler, the goroutines it starts and
  the listeners, with objects whose resources do not change, what is reserved in a namespace is
  always the sum of the requests of the units on record there. No reservation is counted twice, none
  is lost and none outlives its unit's entry in the record.\<close>

theorem reachable_ledger:
  assumes "NewController ks (NewInTreeRegistry Q ord lister) handle s0 client w i m = Ok (sch, W)"
    and "is_range ks (NewInTreeRegistry Q ord lister)" "runtime_ok rng srt dispatch client"
    and "quantity_laws Q amount" "client_good (registered amount ord R) client"
    and "reachable (\<lambda>_ a. action_ok a \<and> action_good (registered amount ord R) a)
      (program_of Q ord rng srt dispatch sch) (start_config W) c"
  shows "reserved_amount Q amount (plugins (c_world c)) ns r =
    (\<Sum>k | quRecord (plugins (c_world c)) k \<noteq> None \<and> qu_Namespace (R k) = ns. request amount (R k) r)"
proof -
  let ?P = "program_of Q ord rng srt dispatch sch"
  have sch: "sch = NewScheduler (in_tree_framework Q ord handle) client"
    and W: "objects W = \<lparr>objs = Map.empty, next_addr = 0, flushers = []\<rparr>" "tasks W = []"
      "plugins W = \<lparr>reserved = Map.empty, quRecord = Map.empty, rqLister = lister handle\<rparr>"
    using assms(1) by (auto simp: new_controller_in_tree [OF assms(2)])
  have P: "sch_fw (p_sched ?P) = in_tree_framework Q ord handle" "sch_client (p_sched ?P) = client"
    by (simp_all add: sch program_of_def NewScheduler_def)
  have "config_good (registered amount ord R) (start_config W)"
    by (simp add: config_good_def start_config_def world_good_def queues_good_def W)
  moreover have "recorded_units R (plugins W) = Map.empty" by (simp add: W recorded_units_def fun_eq_iff)
  then have "ledger_ok Q amount (plugins (c_world (start_config W))) (recorded_units R (plugins (c_world (start_config W))))"
    using quantity_lawsD(5) [OF assms(4)] by (simp add: start_config_def W(3) ledger_ok_def ledger_sum_def amount_defs)
  ultimately have "ledger_ok Q amount (plugins (c_world c)) (recorded_units R (plugins (c_world c)))"
    using reachable_ledger_ok [OF assms(4) started_ok(2) [OF assms(1-3)] P(1) _ started_ok(1) [OF assms(1-3)]]
      assms(5,6) P(2) by auto
  then have "reserved_amount Q amount (plugins (c_world c)) ns r =
      ledger_sum amount (recorded_units R (plugins (c_world c))) ns r" by (rule ledger_okD(5))
  also have "\<dots> = (\<Sum>k | quRecord (plugins (c_world c)) k \<noteq> None \<and> qu_Namespace (R k) = ns. request amount (R k) r)"
    unfolding ledger_sum_def by (intro sum.cong) (auto simp: recorded_units_def split: if_splits)
  finally show ?thesis .
qed

text \<open>The example: the unit is found dequeued when the program starts, and is reserved.\<close>

definition dequeued_config :: "(int, int ResourceQuota, unit, unit) config" where
  "dequeued_config = start_config (sample_start\<lparr>plugins :=
     fst (Reserve int_quantity cpu_order (plugins sample_start) (NewQueueUnitInfo 1 1 (mark_dequeued job)))\<rparr>)"

lemma job_registered:
  "registered of_int cpu_order (\<lambda>_. job) job" "registered of_int cpu_order (\<lambda>_. job) (mark_dequeued job)"
  by (auto simp: registered_def same_unit_def mark_dequeued_def job_def sample_defs ranges_def is_range_def nonneg_def
      request_def split: option.splits)

lemma dequeued_config_reachable:
  "reachable (\<lambda>_ a. action_ok a \<and> action_good (registered of_int cpu_order (\<lambda>_. job)) a) sample_program
     (start_config sample_start) dequeued_config"
proof (rule reach_step [OF reach_start, where a = "DequeuedEvent 1 1 (OnAdd (UnitObj (mark_dequeued job)))"])
  have "ConsumerRef (qu_Spec job) \<noteq> None" by (simp add: job_def sample_unit_def)
  then show "action_ok (DequeuedEvent 1 1 (OnAdd (UnitObj (mark_dequeued job))))
      \<and> action_good (registered of_int cpu_order (\<lambda>_. job)) (DequeuedEvent 1 1 (OnAdd (UnitObj (mark_dequeued job))))"
    using job_registered(2) by (simp add: mark_dequeued_def)
  show "exec sample_program (DequeuedEvent 1 1 (OnAdd (UnitObj (mark_dequeued job)))) (start_config sample_start) =
      Ok dequeued_config"
    by (simp add: program_of_def dequeued_listener_def standard_dispatch_def AddDequeuedQueueUnit_def NewScheduler_def
        start_config_def dequeued_config_def mark_dequeued_def) (simp add: sample_start_def)
qed

theorem reachable_ledger_witness:
  "reserved_amount int_quantity of_int (plugins (c_world dequeued_config)) ''a'' ''cpu'' =
     (\<Sum>k | quRecord (plugins (c_world dequeued_config)) k \<noteq> None \<and> qu_Namespace job = ''a''. request of_int job ''cpu'')
   \<and> quRecord (plugins (c_world dequeued_config)) = [''a/j'' \<mapsto> ()]"
proof
  have "client_good (registered of_int cpu_order (\<lambda>_. job)) job_client"
    using job_registered(1) by (auto simp: client_good_def job_client_def split: if_splits)
  from reachable_ledger [OF sample_controller sample_range sample_runtime int_quantity_laws this dequeued_config_reachable]
  show "reserved_amount int_quantity of_int (plugins (c_world dequeued_config)) ''a'' ''cpu'' =
     (\<Sum>k | quRecord (plugins (c_world dequeued_config)) k \<noteq> None \<and> qu_Namespace job = ''a''. request of_int job ''cpu'')" .
  show "quRecord (plugins (c_world dequeued_config)) = [''a/j'' \<mapsto> ()]"
    by (simp add: dequeued_config_def start_config_def sample_start_def Reserve_def QueueUnitToKey_def Let_def
        mark_dequeued_def job_def sample_unit_def)
qed

end
