(* ===== verification/System_Quota.thy ===== *)
theory System_Quota
  imports System_Ledger
begin

text \<open>
  The purpose of the program, for the whole of it: what is reserved stays within the quotas, in every
  interleaving in which all reservations are made by the scheduler. The proof follows a unit through
  the loop of \<open>Filter\<close>: what has been checked stays true until the unit is reserved, because all that
  the other goroutines do meanwhile is to give reservations back. A dequeued unit that the second
  listener puts on record is not checked by anyone, and breaks this.
\<close>

section \<open>Bounds on the reservations\<close>

text \<open>
  \<open>H ns r\<close> is a bound on resource \<open>r\<close> in namespace \<open>ns\<close>, if there is one: no quota object the lister
  returns for \<open>ns\<close> allows more.
\<close>

type_synonym bounds = "string \<Rightarrow> string \<Rightarrow> rat option"

definition limits :: "('q \<Rightarrow> rat) \<Rightarrow> bounds \<Rightarrow> string \<Rightarrow> 'q ResourceList \<Rightarrow> bool" where
  "limits amount H ns hard \<longleftrightarrow> (\<forall>r B. H ns r = Some B \<longrightarrow> (\<exists>b. hard r = Some b \<and> amount b \<le> B))"

definition lister_limits :: "('q \<Rightarrow> rat) \<Rightarrow> bounds \<Rightarrow> (string \<Rightarrow> string + 'q QuotaObject list) \<Rightarrow> bool" where
  "lister_limits amount H l \<longleftrightarrow>
     (\<forall>ns rqs basket hard. l ns = Inr rqs \<longrightarrow> SelectResourceQuota rqs ns = Inr basket \<longrightarrow>
        Hard basket = Some hard \<longrightarrow> limits amount H ns hard)"

definition in_bounds :: "'q quantity_ops \<Rightarrow> ('q \<Rightarrow> rat) \<Rightarrow> bounds \<Rightarrow> 'q ResourceQuota \<Rightarrow> bool" where
  "in_bounds Q amount H rq \<longleftrightarrow>
     (\<forall>ns r. 0 \<le> reserved_amount Q amount rq ns r
        \<and> (\<forall>B. H ns r = Some B \<longrightarrow> reserved_amount Q amount rq ns r \<le> B))"

text \<open>Resource \<open>r\<close> of the unit still fits.\<close>

definition fits ::
  "'q quantity_ops \<Rightarrow> ('q \<Rightarrow> rat) \<Rightarrow> bounds \<Rightarrow> 'q ResourceQuota \<Rightarrow> 'q QueueUnit \<Rightarrow> string \<Rightarrow> bool" where
  "fits Q amount H rq u r \<longleftrightarrow>
     (\<forall>B. H (qu_Namespace u) r = Some B \<longrightarrow>
        reserved_amount Q amount rq (qu_Namespace u) r + request amount u r \<le> B)"

fun pc_fits ::
  "'q quantity_ops \<Rightarrow> ('q \<Rightarrow> rat) \<Rightarrow> bounds \<Rightarrow> 'q ResourceQuota \<Rightarrow> 'q pc \<Rightarrow> bool" where
  "pc_fits Q amount H rq (Checking v q u (ns, bn, hard, res, rs) qs) \<longleftrightarrow>
     ns = qu_Namespace (Unit u) \<and> res = Resource (qu_Spec (Unit u)) \<and> limits amount H ns hard
     \<and> (\<forall>r. res r \<noteq> None \<longrightarrow> r \<notin> set rs \<longrightarrow> fits Q amount H rq (Unit u) r)"
| "pc_fits Q amount H rq (Reserving v q u qs) \<longleftrightarrow>
     (\<forall>r. Resource (qu_Spec (Unit u)) r \<noteq> None \<longrightarrow> fits Q amount H rq (Unit u) r)"
| "pc_fits Q amount H rq _ \<longleftrightarrow> True"

text \<open>The job of the unit lives in the unit's own namespace; its request is a proper one.\<close>

definition home_unit :: "('q \<Rightarrow> rat) \<Rightarrow> ('q ResourceList \<Rightarrow> string list) \<Rightarrow> 'q QueueUnit \<Rightarrow> bool" where
  "home_unit amount ord u \<longleftrightarrow> local_unit ord u \<and> nonneg amount u"

lemma home_unitD:
  assumes "home_unit amount ord u"
  shows "ranges ord u" "nonneg amount u" "consumer_namespace u = Ok (qu_Namespace u)"
  using assms by (simp_all add: home_unit_def local_unit_def)

section \<open>What the calls of the plugin do to the bounds\<close>

definition less_reserved :: "'q quantity_ops \<Rightarrow> ('q \<Rightarrow> rat) \<Rightarrow> 'q ResourceQuota \<Rightarrow> 'q ResourceQuota \<Rightarrow> bool" where
  "less_reserved Q amount rq' rq \<longleftrightarrow>
     (\<forall>ns r. reserved_amount Q amount rq' ns r \<le> reserved_amount Q amount rq ns r)"

lemma less_reserved_refl [simp]: "less_reserved Q amount rq rq"
  by (simp add: less_reserved_def)

lemma less_reserved_lister [simp]: "less_reserved Q amount (rq\<lparr>rqLister := l\<rparr>) rq"
  by (simp add: less_reserved_def amount_defs)

lemma in_bounds_lister [simp]: "in_bounds Q amount H (rq\<lparr>rqLister := l\<rparr>) = in_bounds Q amount H rq"
  by (simp add: in_bounds_def amount_defs)

lemma fits_less:
  assumes "less_reserved Q amount rq' rq" "fits Q amount H rq u r"
  shows "fits Q amount H rq' u r"
proof -
  have "reserved_amount Q amount rq' (qu_Namespace u) r \<le> reserved_amount Q amount rq (qu_Namespace u) r"
    using assms(1) by (simp add: less_reserved_def)
  with assms(2) show ?thesis by (auto simp: fits_def)
qed

lemma pc_fits_less:
  assumes "less_reserved Q amount rq' rq" "pc_fits Q amount H rq pc"
  shows "pc_fits Q amount H rq' pc"
  using assms(2) fits_less [OF assms(1)] by (induction Q amount H rq pc rule: pc_fits.induct) auto

lemma Unreserve_less:
  assumes "quantity_laws Q amount" "home_unit amount ord (Unit qu)" "in_bounds Q amount H rq"
  shows "less_reserved Q amount (Unreserve Q ord rq qu) rq \<and> in_bounds Q amount H (Unreserve Q ord rq qu)"
proof -
  let ?rq = "Unreserve Q ord rq qu" and ?res = "Resource (qu_Spec (Unit qu))" and ?ns = "qu_Namespace (Unit qu)"
  have nonneg: "0 \<le> amount q" if "?res r = Some q" for r q
    using home_unitD(2) [OF assms(2)] that unfolding nonneg_def request_def by (metis option.simps(5))
  have old: "0 \<le> held amount (reserved rq ns) r" for ns r
    using assms(3) by (simp add: in_bounds_def reserved_amount_held [OF assms(1)])
  have ks: "distinct (ord ?res)" using home_unitD(1) [OF assms(2)] by (simp add: ranges_def is_range_def)
  have step: "0 \<le> held amount (Some (unreserve_loop Q ?res (ord ?res) m)) r
      \<and> held amount (Some (unreserve_loop Q ?res (ord ?res) m)) r \<le> held amount (Some m) r"
    if "reserved rq ?ns = Some m" for m r
    using old [of ?ns r] nonneg [of r] that quantity_lawsD(2,4) [OF assms(1)]
    by (auto simp: held_def unreserve_loop_spec [OF ks] split: option.splits)
  have "0 \<le> reserved_amount Q amount ?rq ns r \<and> reserved_amount Q amount ?rq ns r \<le> reserved_amount Q amount rq ns r" for ns r
    using old [of ns r] step by (auto simp: Unreserve_def Let_def reserved_amount_held [OF assms(1)] split: option.splits)
  with assms(3) show ?thesis unfolding less_reserved_def in_bounds_def by (meson order_trans)
qed

lemma Reserve_in_bounds:
  assumes "quantity_laws Q amount" "home_unit amount ord (Unit qu)" "in_bounds Q amount H rq"
    and "\<And>r. Resource (qu_Spec (Unit qu)) r \<noteq> None \<Longrightarrow> fits Q amount H rq (Unit qu) r"
  shows "in_bounds Q amount H (fst (Reserve Q ord rq qu))"
proof (cases "quRecord rq (QueueUnitToKey qu) = None")
  case True
  obtain rq' st where R: "Reserve Q ord rq qu = (rq', st)" by force
  note u = home_unitD(1,2) [OF assms(2)]
  note res = Reserve_fresh [OF assms(1) u(1) True R]
  have "reserved_amount Q amount rq' ns r \<le> B" if "H ns r = Some B" for ns r B
  proof (cases "ns = qu_Namespace (Unit qu) \<and> Resource (qu_Spec (Unit qu)) r \<noteq> None")
    case True
    with res assms(4) [of r] that show ?thesis by (auto simp: fits_def)
  next
    case False
    then have "reserved_amount Q amount rq' ns r = reserved_amount Q amount rq ns r"
      using res by (auto simp: request_def)
    with assms(3) that show ?thesis by (simp add: in_bounds_def)
  qed
  moreover have "0 \<le> reserved_amount Q amount rq' ns r" for ns r
    using res assms(3) u(2) by (simp add: in_bounds_def nonneg_def)
  ultimately show ?thesis using R by (simp add: in_bounds_def)
qed (use assms(3) in \<open>simp add: Reserve_recorded\<close>)

lemma rqLister_calls [simp]:
  "rqLister (Unreserve Q ord rq qu) = rqLister rq" "rqLister (fst (Reserve Q ord rq qu)) = rqLister rq"
  by (simp_all add: Unreserve_def Reserve_def Let_def split: option.splits)

section \<open>The scheduler follows a unit from the filter to the reservation\<close>

text \<open>The invariant.\<close>

definition quota_ok ::
  "'q quantity_ops \<Rightarrow> ('q \<Rightarrow> rat) \<Rightarrow> bounds \<Rightarrow> 'q ResourceQuota \<Rightarrow> 'q pc \<Rightarrow> bool" where
  "quota_ok Q amount H rq pc \<longleftrightarrow>
     in_bounds Q amount H rq \<and> lister_limits amount H (rqLister rq) \<and> pc_fits Q amount H rq pc"

text \<open>The limits are read, no resource is checked yet.\<close>

lemma pc_fits_start:
  assumes "home_unit amount ord (Unit u)" "lister_limits amount H (rqLister rq)"
    and "Filter_start ord rq u = Ok r" "after_filter v q u qs r = Ok pc"
  shows "pc_fits Q amount H rq pc"
proof (cases r)
  case (Inl st)
  with Filter_start_status [of ord rq u st] assms(3) obtain m where "st = NewStatus Error m" by blast
  with Inl assms(4) show ?thesis by auto
next
  case (Inr chk)
  obtain ns bn hard res rs where chk: "chk = (ns, bn, hard, res, rs)" by (cases chk)
  note start = Filter_start_check [OF assms(3) [unfolded Inr chk]]
  have "ns = qu_Namespace (Unit u)" using start(1) home_unitD(3) [OF assms(1)] by simp
  moreover have "limits amount H ns hard" using start(4) assms(2) unfolding lister_limits_def by blast
  moreover have "r \<in> set rs" if "res r \<noteq> None" for r
    using that start(2,3) home_unitD(1) [OF assms(1)] by (auto simp: ranges_def is_range_def)
  ultimately show ?thesis using assms(4) Inr chk start(2) by auto
qed

text \<open>A resource that does not exceed the limit it was compared with fits.\<close>

lemma checked_fits:
  assumes "quantity_laws Q amount" "limits amount H (qu_Namespace u) hard"
    and "\<not> exceeds Q rq (qu_Namespace u) hard (Resource (qu_Spec u)) r" "Resource (qu_Spec u) r \<noteq> None"
  shows "fits Q amount H rq u r"
proof -
  obtain q where q: "Resource (qu_Spec u) r = Some q" using assms(4) by blast
  have "reserved_amount Q amount rq (qu_Namespace u) r + request amount u r \<le> B"
    if H: "H (qu_Namespace u) r = Some B" for B
  proof -
    obtain b where b: "hard r = Some b" "amount b \<le> B" using assms(2) H by (auto simp: limits_def)
    have "\<not> amount b < reserved_amount Q amount rq (qu_Namespace u) r + amount q"
      using assms(3) q b(1) by (simp add: exceeds_def reserved_amount_def quantity_lawsD [OF assms(1)])
    with b(2) q show ?thesis by (simp add: request_def)
  qed
  then show ?thesis by (simp add: fits_def)
qed

lemma pc_fits_check:
  assumes "quantity_laws Q amount" "pc_fits Q amount H rq (Checking v q u chk qs)"
    and "after_filter v q u qs (Filter_step Q rq chk) = Ok pc"
  shows "pc_fits Q amount H rq pc"
proof -
  obtain ns bn hard res rs where chk: "chk = (ns, bn, hard, res, rs)" by (cases chk)
  have ok: "ns = qu_Namespace (Unit u)" "res = Resource (qu_Spec (Unit u))" "limits amount H ns hard"
    "\<And>r. res r \<noteq> None \<Longrightarrow> r \<notin> set rs \<Longrightarrow> fits Q amount H rq (Unit u) r"
    using assms(2) unfolding chk pc_fits.simps by blast+
  show ?thesis
  proof (cases rs)
    case Nil
    with ok assms(3) show ?thesis by (auto simp: chk)
  next
    case (Cons r rs')
    show ?thesis
    proof (cases "exceeds Q rq ns hard res r")
      case True
      then obtain c m where "filter_loop Q rq ns bn hard res [r] = NewStatus c m" "c = Error"
        using filter_loop_Code [of Q rq ns bn hard res "[r]"] filter_loop_status [of Q rq ns bn hard res "[r]"]
        by (auto simp del: filter_loop.simps)
      with True Cons assms(3) show ?thesis
        by (auto simp: chk Filter_step_cases simp del: Filter_step.simps(2) filter_loop.simps)
    next
      case False
      with Cons assms(3) have "pc = Checking v q u (ns, bn, hard, res, rs') qs"
        by (auto simp: chk Filter_step_cases simp del: Filter_step.simps(2))
      moreover have "fits Q amount H rq (Unit u) r" if "res r \<noteq> None"
        using checked_fits [OF assms(1)] False ok that by blast
      ultimately show ?thesis using ok Cons by auto
    qed
  qed
qed

lemma sched_step_quota:
  assumes "quantity_laws Q amount" "p_quantity P = Q" "p_order P = ord"
    and "sch_fw (p_sched P) = in_tree_framework Q ord handle"
    and "pc_good (home_unit amount ord) pc" "quota_ok Q amount H (plugins W) pc"
    and "sched_step P now (W, pc) = Ok (W', pc')"
  shows "quota_ok Q amount H (plugins W') pc'"
proof (cases pc)
  case (Filtering v q u qs)
  with assms(3,7) obtain r where "Filter_start ord (plugins W) u = Ok r" "after_filter v q u qs r = Ok pc'" "W' = W"
    by (auto simp: go_simps)
  with pc_fits_start [of amount ord u H "plugins W" r v q qs pc' Q] assms(5,6) Filtering show ?thesis
    by (simp add: quota_ok_def)
next
  case (Checking v q u chk qs)
  with assms(2,7) have "after_filter v q u qs (Filter_step Q (plugins W) chk) = Ok pc'" "W' = W"
    by (auto simp: go_simps)
  with pc_fits_check [OF assms(1), of H "plugins W" v q u chk qs pc'] assms(6) Checking show ?thesis
    by (simp add: quota_ok_def)
next
  case (Reserving v q u qs)
  with assms(4,7) have W': "plugins W' = (if quRecord (plugins W) (QueueUnitToKey u) = None
      then fst (Reserve Q ord (plugins W) u) else plugins W)" "pc_fits Q amount H rq pc'" for rq
    by (auto simp: go_simps log_status_def split: if_splits)
  have "in_bounds Q amount H (fst (Reserve Q ord (plugins W) u))"
    using Reserve_in_bounds [OF assms(1)] assms(5,6) Reserving by (simp add: quota_ok_def)
  with W' assms(6) show ?thesis by (auto simp: quota_ok_def)
next
  case (Loop v qs)
  with assms(6,7) show ?thesis by (cases qs) (auto simp: go_simps quota_ok_def)
next
  case (Failing v q u qs)
  obtain W1 r where "ErrorFunc_get (p_sched P) now u W = (W1, r)" by force
  moreover from this have "plugins W1 = plugins W"
    by (auto simp: ErrorFunc_get_def Let_def split: prod.splits sum.splits)
  ultimately show ?thesis using Failing assms(6,7) by (cases r) (auto simp: quota_ok_def)
qed (use assms(6,7) in \<open>auto simp: go_simps quota_ok_def ErrorFunc_add_def\<close>)

section \<open>The other goroutines give back\<close>

text \<open>
  The second listener reserves what others have dequeued without looking at the quota; here it only
  sees units that are on record already, or that leave the record.
\<close>

definition no_new_reservation ::
  "('q, 'q ResourceQuota, 'hd, 'w) program \<Rightarrow> ('q, 'q ResourceQuota, 'hd, 'w) config \<Rightarrow> ('q, 'w) action \<Rightarrow> bool" where
  "no_new_reservation P c a \<longleftrightarrow>
     (\<forall>t1 t2 n c'. a = DequeuedEvent t1 t2 n \<longrightarrow> exec P a c = Ok c' \<longrightarrow>
        dom (quRecord (plugins (c_world c'))) \<subseteq> dom (quRecord (plugins (c_world c))))"

fun quotas_limited :: "('q \<Rightarrow> rat) \<Rightarrow> bounds \<Rightarrow> ('q, 'w) action \<Rightarrow> bool" where
  "quotas_limited amount H (Quotas l) = lister_limits amount H l"
| "quotas_limited amount H _ = True"

definition releases ::
  "'q quantity_ops \<Rightarrow> ('q ResourceList \<Rightarrow> string list) \<Rightarrow> ('q QueueUnit \<Rightarrow> bool)
   \<Rightarrow> 'q ResourceQuota \<Rightarrow> 'q ResourceQuota \<Rightarrow> bool" where
  "releases Q ord G rq rq' \<longleftrightarrow> rq' = rq \<or> (\<exists>qu. G (Unit qu) \<and> rq' = Unreserve Q ord rq qu)"

lemma releases_simps [simp]:
  "releases Q ord G rq rq" "G (Unit qu) \<Longrightarrow> releases Q ord G rq (Unreserve Q ord rq qu)"
  unfolding releases_def by blast+

lemma running_releases:
  assumes "sch_fw s = in_tree_framework Q ord handle" "task_good G t" "task_step s now t W = Ok (W', r)"
  shows "releases Q ord G (plugins W) (plugins W')"
proof (cases t)
  case (Retrying u v)
  obtain W1 x where "ErrorFunc_get s now u W = (W1, x)" by force
  moreover from this have "plugins W1 = plugins W" by (auto simp: ErrorFunc_get_def Let_def split: prod.splits sum.splits)
  ultimately show ?thesis using Retrying assms(3) by (cases x) (auto split: option.splits)
qed (use assms in \<open>auto simp: go_simps ErrorFunc_add_def split: prod.splits sum.splits\<close>)

lemma dequeued_releases:
  assumes "filtering_ok dispatch" "event_good G n"
    and "dequeued_listener dispatch (in_tree_framework Q ord handle) t1 t2 n W = Ok W'"
    and "dom (quRecord (plugins W')) \<subseteq> dom (quRecord (plugins W))"
  shows "releases Q ord G (plugins W) (plugins W')"
proof (cases "dispatch dequeued_filter n")
  case (Some m)
  note good = dispatched_good [OF assms(1) Some assms(2)]
  show ?thesis
  proof (cases m)
    case (OnAdd x)
    with Some assms(3) obtain u where "as_unit x = Ok u" by (auto simp: dequeued_listener_def handler_defs go_simps)
    with OnAdd Some assms(3) have u: "plugins W' = (if quRecord (plugins W) (QueueUnitToKey (NewQueueUnitInfo t1 t2 u)) = None
        then fst (Reserve Q ord (plugins W) (NewQueueUnitInfo t1 t2 u)) else plugins W)"
      by (auto simp: dequeued_listener_def handler_defs split: if_splits)
    have "quRecord (plugins W) (QueueUnitToKey (NewQueueUnitInfo t1 t2 u)) \<noteq> None"
    proof
      assume new: "quRecord (plugins W) (QueueUnitToKey (NewQueueUnitInfo t1 t2 u)) = None"
      with u have "QueueUnitToKey (NewQueueUnitInfo t1 t2 u) \<in> dom (quRecord (plugins W'))"
        by (simp add: Reserve_def Let_def)
      with new assms(4) show False by blast
    qed
    with u show ?thesis by simp
  qed (use good Some assms(3) in \<open>auto simp: dequeued_listener_def handler_defs go_simps as_unit_Ok \<close>)
qed (use assms(3) in \<open>simp add: dequeued_listener_def \<close>)

text \<open>The steps of the goroutines the scheduler started.\<close>

lemma goroutine_actions:
  shows "exec P (Task i) c = Ok c' \<Longrightarrow> releases Q ord G (plugins (c_world c)) (plugins (c_world c')) \<and> c_sched c' = c_sched c"
    and "sch_fw (p_sched P) = in_tree_framework Q ord handle \<Longrightarrow> \<forall>t \<in> set (c_running c). task_good G t \<Longrightarrow>
      exec P (Running i now) c = Ok c' \<Longrightarrow>
      releases Q ord G (plugins (c_world c)) (plugins (c_world c')) \<and> c_sched c' = c_sched c"
proof -
  assume ex: "exec P (Task i) c = Ok c'"
  obtain u v W' t where uv: "tasks (c_world c) ! i = (u, v)"
    "task_start (p_sched P) u v ((c_world c)\<lparr>tasks := without i (tasks (c_world c))\<rparr>) = (W', t)" by force
  then have "plugins W' = plugins (c_world c)" by (auto simp: task_start_def split: prod.splits sum.splits)
  with uv ex show "releases Q ord G (plugins (c_world c)) (plugins (c_world c')) \<and> c_sched c' = c_sched c"
    by (auto split: if_splits)
next
  assume fw: "sch_fw (p_sched P) = in_tree_framework Q ord handle" and good: "\<forall>t \<in> set (c_running c). task_good G t"
    and ex: "exec P (Running i now) c = Ok c'"
  show "releases Q ord G (plugins (c_world c)) (plugins (c_world c')) \<and> c_sched c' = c_sched c"
  proof (cases "i < length (c_running c)")
    case True
    with ex obtain W' r where "task_step (p_sched P) now (c_running c ! i) (c_world c) = Ok (W', r)"
      "c_world c' = W'" "c_sched c' = c_sched c" by (auto simp: go_simps)
    with running_releases [OF fw, of G "c_running c ! i"] good True show ?thesis by simp
  qed (use ex in simp)
qed

lemma other_actions:
  assumes "sch_fw (p_sched P) = in_tree_framework Q ord handle" "filtering_ok (p_dispatch P)" "range_ok (p_rng P)"
    and "config_ok c" "config_good G c" "action_good G a" "no_new_reservation P c a"
    and "\<And>now. a \<noteq> Sched now" "\<And>l. a \<noteq> Quotas l" "exec P a c = Ok c'"
  shows "releases Q ord G (plugins (c_world c)) (plugins (c_world c')) \<and> c_sched c' = c_sched c"
proof -
  have W: "world_ok (c_world c)" "world_good G (c_world c)" "\<forall>t \<in> set (c_running c). task_good G t" "unit_pc_good G (c_unit c)"
    using assms(4,5) by (simp_all add: config_okD config_good_def)
  show ?thesis
  proof (cases a)
    case (Task i)
    with goroutine_actions(1) assms(10) show ?thesis by blast
  next
    case (Running i now)
    with goroutine_actions(2) [OF assms(1) W(3)] assms(10) show ?thesis by blast
  next
    case (Flusher b clk)
    with flusher_good [OF assms(4,5)] assms(10) show ?thesis by (auto simp: go_simps split: if_splits)
  next
    case (UnitEvent n)
    with assms(10) show ?thesis by (auto simp: go_simps split: if_splits)
  next
    case (UnitMethod t1 t2)
    with assms(10) unit_finish_good [OF W(1,2,4)] show ?thesis by (auto simp: go_simps)
  next
    case (DequeuedEvent t1 t2 n)
    with assms(1,10) obtain W' where W': "c' = c\<lparr>c_world := W'\<rparr>"
      "dequeued_listener (p_dispatch P) (in_tree_framework Q ord handle) t1 t2 n (c_world c) = Ok W'" by (auto simp: go_simps)
    with assms(7,10) DequeuedEvent have "dom (quRecord (plugins W')) \<subseteq> dom (quRecord (plugins (c_world c)))"
      unfolding no_new_reservation_def by fastforce
    with dequeued_releases [OF assms(2) _ W'(2)] assms(6) W'(1) DequeuedEvent show ?thesis by simp
  next
    case (QueueEvent n)
    with assms(10) queue_steps_good(1) [OF W(1,2)] show ?thesis by (auto simp: go_simps split: if_splits)
  next
    case QueueMethod
    with assms(10) queue_steps_good(2) [OF W(1,2) assms(3)] show ?thesis by (auto simp: go_simps)
  next
    case (Server w)
    with assms(10) show ?thesis by auto
  qed (use assms(8,9) in auto)
qed

section \<open>The quotas hold\<close>

text \<open>The actions under which they do: the environment delivers home units and limited quotas, and makes no reservation.\<close>

definition quota_action ::
  "('q \<Rightarrow> rat) \<Rightarrow> ('q ResourceList \<Rightarrow> string list) \<Rightarrow> bounds \<Rightarrow> ('q, 'q ResourceQuota, 'hd, 'w) program
   \<Rightarrow> ('q, 'q ResourceQuota, 'hd, 'w) config \<Rightarrow> ('q, 'w) action \<Rightarrow> bool" where
  "quota_action amount ord H P c a \<longleftrightarrow>
     action_ok a \<and> action_good (home_unit amount ord) a \<and> quotas_limited amount H a \<and> no_new_reservation P c a"

lemma exec_quota:
  assumes "quantity_laws Q amount" "program_ok P" "p_quantity P = Q" "p_order P = ord"
    and "sch_fw (p_sched P) = in_tree_framework Q ord handle"
    and "config_ok c" "config_good (home_unit amount ord) c" "quota_action amount ord H P c a" "exec P a c = Ok c'"
    and "quota_ok Q amount H (plugins (c_world c)) (c_sched c)"
  shows "quota_ok Q amount H (plugins (c_world c')) (c_sched c')"
proof -
  consider (sched) now where "a = Sched now" | (quotas) l where "a = Quotas l"
    | (other) "\<And>now. a \<noteq> Sched now" "\<And>l. a \<noteq> Quotas l" by (cases a) auto
  then show ?thesis
  proof cases
    case sched
    with assms(9) have "sched_step P now (c_world c, c_sched c) = Ok (c_world c', c_sched c')" by (auto simp: go_simps)
    with sched_step_quota [OF assms(1,3,4,5) _ assms(10)] assms(7) show ?thesis by (simp add: config_good_def)
  next
    case quotas
    with assms(8,9,10) pc_fits_less [of Q amount "(plugins (c_world c))\<lparr>rqLister := l\<rparr>" "plugins (c_world c)" H "c_sched c"]
    show ?thesis by (auto simp: quota_ok_def quota_action_def)
  next
    case other
    note eff = other_actions [OF assms(5) program_okD(5,3) [OF assms(2)] assms(6,7) _ _ other assms(9)]
    with assms(8) consider "plugins (c_world c') = plugins (c_world c)"
      | qu where "home_unit amount ord (Unit qu)" "plugins (c_world c') = Unreserve Q ord (plugins (c_world c)) qu"
      unfolding quota_action_def releases_def by blast
    then show ?thesis
    proof cases
      case 2
      with Unreserve_less [OF assms(1) 2(1), of H "plugins (c_world c)"] assms(10) pc_fits_less eff assms(8)
      show ?thesis by (auto simp: quota_ok_def quota_action_def)
    qed (use eff assms(8,10) in \<open>simp add: quota_action_def\<close>)
  qed
qed

lemma reachable_quota_ok:
  assumes "quantity_laws Q amount" "program_ok P" "p_quantity P = Q" "p_order P = ord"
    and "sch_fw (p_sched P) = in_tree_framework Q ord handle"
    and "client_good (home_unit amount ord) (sch_client (p_sched P))"
    and "config_ok c0" "config_good (home_unit amount ord) c0" "quota_ok Q amount H (plugins (c_world c0)) (c_sched c0)"
  shows "reachable (quota_action amount ord H P) P c0 c \<Longrightarrow>
    config_ok c \<and> config_good (home_unit amount ord) c \<and> quota_ok Q amount H (plugins (c_world c)) (c_sched c)"
proof (induction rule: reachable.induct)
  case (reach_step c a c')
  then have a: "action_ok a" "action_good (home_unit amount ord) a" by (simp_all add: quota_action_def)
  have "config_ok c'" using exec_ok [OF assms(2) _ a(1), of c] reach_step by auto
  moreover have "config_good (home_unit amount ord) c'"
    using exec_good [OF assms(5,6) program_okD(5,3) [OF assms(2)] _ _ a(2), of c c'] reach_step by blast
  ultimately show ?case using exec_quota [OF assms(1-5) _ _ reach_step.hyps(2,3)] reach_step.IH by blast
qed (use assms in simp)

text \<open>C1. Safety of the whole program: take any bounds \<open>H\<close> that no quota object exceeds. In every
  interleaving of the scheduler, the goroutines it starts, the flushers and the listeners, whatever
  happens on the server and however the quota objects change below the bounds, what is reserved of a
  resource in a namespace stays within its bound, if the jobs of the units live in the units' own
  namespaces and the listener of dequeued units puts no unit on record that the scheduler has not.\<close>

theorem reachable_within_quotas:
  assumes "NewController ks (NewInTreeRegistry Q ord lister) handle s0 client w i m = Ok (sch, W)"
    and "is_range ks (NewInTreeRegistry Q ord lister)" "runtime_ok rng srt dispatch client"
    and "quantity_laws Q amount" "client_good (home_unit amount ord) client"
    and "lister_limits amount H (lister handle)" "\<forall>ns r B. H ns r = Some B \<longrightarrow> 0 \<le> B"
    and "reachable (quota_action amount ord H (program_of Q ord rng srt dispatch sch))
      (program_of Q ord rng srt dispatch sch) (start_config W) c"
    and "H ns r = Some B"
  shows "reserved_amount Q amount (plugins (c_world c)) ns r \<le> B"
proof -
  let ?P = "program_of Q ord rng srt dispatch sch"
  have sch: "sch = NewScheduler (in_tree_framework Q ord handle) client"
    and W: "objects W = \<lparr>objs = Map.empty, next_addr = 0, flushers = []\<rparr>" "tasks W = []"
      "plugins W = \<lparr>reserved = Map.empty, quRecord = Map.empty, rqLister = lister handle\<rparr>"
    using assms(1) by (auto simp: new_controller_in_tree [OF assms(2)])
  have P: "sch_fw (p_sched ?P) = in_tree_framework Q ord handle" "sch_client (p_sched ?P) = client"
    "p_quantity ?P = Q" "p_order ?P = ord"
    by (simp_all add: sch program_of_def NewScheduler_def)
  have "config_good (home_unit amount ord) (start_config W)"
    by (simp add: config_good_def start_config_def world_good_def queues_good_def W)
  moreover have "quota_ok Q amount H (plugins (c_world (start_config W))) (c_sched (start_config W))"
    using quantity_lawsD(5) [OF assms(4)] assms(6,7)
    by (simp add: start_config_def W(3) quota_ok_def in_bounds_def amount_defs)
  ultimately have "quota_ok Q amount H (plugins (c_world c)) (c_sched c)"
    using reachable_quota_ok [OF assms(4) started_ok(2) [OF assms(1-3)] P(3,4,1) _ started_ok(1) [OF assms(1-3)]]
      assms(5,8) P(2) by auto
  with assms(9) show ?thesis by (simp add: quota_ok_def in_bounds_def)
qed

section \<open>An example, and how the quota is exceeded\<close>

abbreviation ten_cpus :: bounds where
  "ten_cpus \<equiv> \<lambda>ns r. if r = ''cpu'' then Some 10 else None"

text \<open>Actions the environment may take in the theorem, without those of the second listener.\<close>

definition plain_action :: "(int, unit) action \<Rightarrow> bool" where
  "plain_action a \<longleftrightarrow> action_ok a \<and> action_good (home_unit of_int cpu_order) a \<and> quotas_limited of_int ten_cpus a"

lemma job_home: "home_unit of_int cpu_order job"
  by (auto simp: home_unit_def local_unit_def consumer_namespace_def job_def sample_defs ranges_def is_range_def nonneg_def
      request_def split: option.splits)

lemma job_client_home: "client_good (home_unit of_int cpu_order) job_client"
  using job_home by (auto simp: client_good_def job_client_def split: if_splits)

lemma plain_events:
  "plain_action (QueueEvent (OnAdd (QueueObj qa)))" "plain_action QueueMethod" "plain_action (Sched t)"
  "plain_action (UnitEvent (OnAdd (UnitObj job)))" "plain_action (UnitMethod t1 t2)"
  using job_home by (simp_all add: plain_action_def qa_def job_def sample_queue_def sample_unit_def)

lemma pop_full: "PSQ_Pop full_a = Ok (empty_a, NewQueueUnitInfo 1 1 job)"
  by (simp add: pa_def PSQ_Pop_def SetRunStatus_def queue_for_def NewPrioritySchedulingQueue_def Heap_New_def
      NewWithRecorder_def Heap_Pop_def heap_Pop_def heap_down_def heap_down_loop.simps [where i = 0 and n = 0] data_defs Let_def)

abbreviation job_reserved :: "int ResourceQuota" where
  "job_reserved \<equiv> fst (Reserve int_quantity cpu_order (plugins sample_start) (NewQueueUnitInfo 1 1 job))"

definition reserved_config :: "(int, int ResourceQuota, unit, unit) config" where
  "reserved_config = (start_config ((race_world empty_a)\<lparr>next_var := 1, vars := [0 \<mapsto> 0], plugins := job_reserved,
     tasks := [(NewQueueUnitInfo 1 1 job, 0)]\<rparr>))\<lparr>c_sched := Loop 0 []\<rparr>"

lemma job_filter:
  "Filter_start cpu_order (plugins sample_start) (NewQueueUnitInfo 1 1 job) =
     Ok (Inr (''a'', ''a'', cpu_list 10, cpu_list 3, [''cpu'']))"
  "Filter_step int_quantity (plugins sample_start) (''a'', ''a'', cpu_list 10, cpu_list 3, [''cpu'']) =
     Inr (''a'', ''a'', cpu_list 10, cpu_list 3, [])"
  "quRecord (plugins sample_start) (QueueUnitToKey (NewQueueUnitInfo 1 1 job)) = None"
  by (simp_all add: Filter_start_def SelectResourceQuota_def GetReservedByResourceName_def sample_start_def
      job_consumer) (simp_all add: job_def sample_defs GetReservedByResourceName_def)

lemma reserved_config_run:
  "run_actions sample_program ([Sched 5, Sched 5] @ [Sched 5, Sched 5, Sched 5, Sched 5] @ [Sched 5])
     (start_config (race_world full_a)) = Ok reserved_config"
proof -
  let ?W = "\<lambda>p. (race_world p)\<lparr>next_var := 1, vars := [0 \<mapsto> 0]\<rparr>"
  let ?C = "\<lambda>p pc. (start_config (?W p))\<lparr>c_sched := pc\<rparr>"
  let ?u = "NewQueueUnitInfo 1 1 job"
  have plugins: "plugins (race_world p) = plugins sample_start" for p by (simp add: race_world_def)
  have pop: "run_actions sample_program [Sched 5, Sched 5] (start_config (race_world full_a)) = Ok (?C full_a (Popping 0 0 []))"
    using race_calls(3)
    by (simp add: program_of_def SortedQueue_def ranged_def name_order_def map_filter_simps deref_def
        PSQ_QueueInfo_def insertion_sort_def start_config_def) (simp add: race_world_def sample_start_def)
  have filter: "run_actions sample_program [Sched 5, Sched 5, Sched 5, Sched 5] (?C full_a (Popping 0 0 [])) =
      Ok (?C empty_a (Reserving 0 0 ?u []))"
    using pop_full job_filter
    by (simp add: program_of_def plugins call_def deref_def store_def start_config_def) (simp add: race_world_def store_def)
  have reserve: "run_actions sample_program [Sched 5] (?C empty_a (Reserving 0 0 ?u [])) = Ok reserved_config"
    using job_filter(3)
    by (simp add: program_of_def plugins start_config_def reserved_config_def NewScheduler_def log_status_def)
      (simp add: race_world_def sample_start_def)
  show ?thesis by (simp only: run_actions_append pop filter reserve go_bind.simps)
qed

definition reserving_actions :: "(int, unit) action list" where
  "reserving_actions = [QueueEvent (OnAdd (QueueObj qa)), QueueMethod]
     @ [UnitEvent (OnAdd (UnitObj job)), UnitMethod 1 1]
     @ ([Sched 5, Sched 5] @ [Sched 5, Sched 5, Sched 5, Sched 5] @ [Sched 5])"

lemma reserving_actions_run:
  "run_actions sample_program reserving_actions (start_config sample_start) = Ok reserved_config"
proof -
  have added: "run_actions sample_program [UnitEvent (OnAdd (UnitObj job)), UnitMethod 1 1] (start_config (race_world empty_a)) =
      Ok (start_config (race_world full_a))"
    using race_unit_event(1) [of "start_config (race_world empty_a)" empty_a full_a] race_calls(1)
    by (simp add: start_config_def)
  show ?thesis
    by (simp only: reserving_actions_def run_actions_append [of _ "[QueueEvent _, QueueMethod]"] run_actions_append [of _ "[UnitEvent _, UnitMethod _ _]"]
        race_add_queue added reserved_config_run go_bind.simps)
qed

lemma reserved_config_reachable:
  "reachable (\<lambda>_ a. plain_action a \<and> (\<forall>t1 t2 n. a \<noteq> DequeuedEvent t1 t2 n)) sample_program (start_config sample_start) reserved_config"
  by (rule reachable_run [OF reach_start _ reserving_actions_run]) (simp add: reserving_actions_def plain_events)

lemma sample_limits: "lister_limits of_int ten_cpus (\<lambda>_. Inr [\<lparr>quota_Name = ''a'', Hard = Some (cpu_list 10)\<rparr>])"
  by (auto simp: lister_limits_def limits_def SelectResourceQuota_def cpu_list_def)

theorem reachable_within_quotas_witness:
  "reserved_amount int_quantity of_int (plugins (c_world reserved_config)) ''a'' ''cpu'' \<le> 10"
proof -
  have "reachable (quota_action of_int cpu_order ten_cpus sample_program) sample_program (start_config sample_start) reserved_config"
    using reserved_config_reachable by (rule reachable_mono [rotated]) (auto simp: quota_action_def plain_action_def no_new_reservation_def)
  from reachable_within_quotas [OF sample_controller sample_range sample_runtime int_quantity_laws job_client_home
      sample_limits _ this, where ns = "''a''" and r = "''cpu''" and B = 10] show ?thesis by simp
qed

text \<open>A unit of 8 CPUs that an earlier run of the program has dequeued, of which the listener learns only now.\<close>

definition old_job :: "int QueueUnit" where
  "old_job = mark_dequeued (sample_unit ''a'' ''k'' ''a'' None (cpu_list 8))"

text \<open>C36. A finding: the condition on the second listener is needed. When the program is restarted, the
  scheduler works while the informers still deliver the units that were dequeued before, and the
  listener reserves those without looking at the quota. With home units only and a quota of 10 CPUs
  throughout, 11 can be reserved.\<close>

theorem restart_exceeds_quota:
  "\<exists>c. reachable (\<lambda>_. plain_action) sample_program (start_config sample_start) c
    \<and> reserved_amount int_quantity of_int (plugins (c_world c)) ''a'' ''cpu'' = 11"
proof (intro exI conjI)
  let ?e = "DequeuedEvent 1 1 (OnAdd (UnitObj old_job))"
  let ?rq = "fst (Reserve int_quantity cpu_order job_reserved (NewQueueUnitInfo 1 1 old_job))"
  let ?c = "reserved_config\<lparr>c_world := (c_world reserved_config)\<lparr>plugins := ?rq\<rparr>\<rparr>"
  have rq: "plugins (c_world reserved_config) = job_reserved" by (simp add: reserved_config_def start_config_def)
  have new: "quRecord job_reserved (QueueUnitToKey (NewQueueUnitInfo 1 1 old_job)) = None"
    by (simp add: sample_start_def Reserve_def QueueUnitToKey_def Let_def job_def old_job_def mark_dequeued_def sample_defs)
  have "home_unit of_int cpu_order old_job"
    by (auto simp: home_unit_def local_unit_def consumer_namespace_def old_job_def mark_dequeued_def sample_defs ranges_def
        is_range_def nonneg_def request_def split: option.splits)
  then have "plain_action ?e" by (simp add: plain_action_def old_job_def mark_dequeued_def sample_unit_def)
  moreover have "exec sample_program ?e reserved_config = Ok ?c"
    using rq new
    by (simp add: program_of_def dequeued_listener_def standard_dispatch_def AddDequeuedQueueUnit_def NewScheduler_def
        old_job_def mark_dequeued_def)
  moreover have "reachable (\<lambda>_. plain_action) sample_program (start_config sample_start) reserved_config"
    using reserved_config_reachable by (rule reachable_mono [rotated]) blast
  ultimately show "reachable (\<lambda>_. plain_action) sample_program (start_config sample_start) ?c"
    using reach_step by blast
  show "reserved_amount int_quantity of_int (plugins (c_world ?c)) ''a'' ''cpu'' = 11"
    by (simp add: sample_start_def Reserve_def QueueUnitToKey_def Let_def job_def old_job_def mark_dequeued_def
        amount_defs sample_defs)
qed

end
