(* ===== verification/System_Inflight.thy ===== *)
theory System_Inflight
  imports System_Quota
begin

text \<open>
  No unit is dequeued twice at a time: the record of reservations works as a lock. A goroutine that
  dequeues a unit is only started after the unit was put on record, and the unit stays there until the
  goroutine gives it back, unless the listener of dequeued units takes it off.
\<close>

section \<open>The units in flight\<close>

text \<open>The unit a goroutine is dequeuing: until the update is accepted or the reservation is given back.\<close>

fun holding :: "'q task_pc \<Rightarrow> string multiset" where
  "holding (Updating u v newQueueUnit) = {#QueueUnitToKey u#}"
| "holding (Unreserving u v) = {#QueueUnitToKey u#}"
| "holding (Retrying u v) = {#}"
| "holding (Requeueing u q) = {#}"

definition waiting :: "('q QueueUnitInfo \<times> nat) list \<Rightarrow> string multiset" where
  "waiting ts = image_mset (QueueUnitToKey \<circ> fst) (mset ts)"

definition held_by :: "'q task_pc list \<Rightarrow> string multiset" where
  "held_by rs = (\<Sum>t \<in># mset rs. holding t)"

text \<open>The goroutines that are started and have not run, and those that are running.\<close>

definition inflight :: "('q, 's, 'hd, 'w) config \<Rightarrow> string multiset" where
  "inflight c = waiting (tasks (c_world c)) + held_by (c_running c)"

abbreviation on_record :: "('q, 'q ResourceQuota, 'hd, 'w) config \<Rightarrow> string set" where
  "on_record c \<equiv> dom (quRecord (plugins (c_world c)))"

definition inflight_ok :: "('q, 'q ResourceQuota, 'hd, 'w) config \<Rightarrow> bool" where
  "inflight_ok c \<longleftrightarrow> (\<forall>k. count (inflight c) k \<le> 1) \<and> set_mset (inflight c) \<subseteq> on_record c"

lemma mset_without: "i < length xs \<Longrightarrow> mset xs = add_mset (xs ! i) (mset (without i xs))"
  by (subst id_take_nth_drop [of i xs]) (simp_all add: without_def)

lemma waiting_simps [simp]:
  "waiting [] = {#}" "waiting (ts @ [(u, v)]) = add_mset (QueueUnitToKey u) (waiting ts)"
  by (simp_all add: waiting_def)

lemma waiting_without:
  "i < length ts \<Longrightarrow> ts ! i = (u, v) \<Longrightarrow> waiting ts = add_mset (QueueUnitToKey u) (waiting (without i ts))"
  by (simp add: waiting_def mset_without [of i ts])

lemma held_by_simps [simp]: "held_by [] = {#}" "held_by (rs @ [t]) = holding t + held_by rs"
  by (simp_all add: held_by_def)

lemma held_by_without: "i < length rs \<Longrightarrow> held_by rs = holding (rs ! i) + held_by (without i rs)"
  by (simp add: held_by_def mset_without [of i rs])

lemma held_by_update:
  assumes "i < length rs"
  shows "held_by (rs[i := t]) = holding t + held_by (without i rs)"
proof -
  have "rs[i := t] ! i = t" "without i (rs[i := t]) = without i rs" using assms by (simp_all add: without_def)
  with held_by_without [of i "rs[i := t]" ] assms show ?thesis by simp
qed

section \<open>What the actions do to them\<close>

text \<open>A unit comes into flight when it is put on record, and is off the record only after it has landed.\<close>

definition flight_step ::
  "('q, 'q ResourceQuota, 'hd, 'w) config \<Rightarrow> ('q, 'q ResourceQuota, 'hd, 'w) config \<Rightarrow> bool" where
  "flight_step c c' \<longleftrightarrow>
     inflight c' = inflight c \<and> on_record c \<subseteq> on_record c'
   \<or> (\<exists>k. inflight c' = add_mset k (inflight c) \<and> k \<notin> on_record c \<and> on_record c' = insert k (on_record c))
   \<or> (\<exists>k. inflight c = add_mset k (inflight c') \<and> on_record c - {k} \<subseteq> on_record c')"

lemma flight_step_ok:
  assumes "inflight_ok c" "flight_step c c'"
  shows "inflight_ok c'"
  using assms(2) unfolding flight_step_def
proof (elim disjE exE conjE)
  fix k assume k: "inflight c' = add_mset k (inflight c)" "k \<notin> on_record c" "on_record c' = insert k (on_record c)"
  then have "count (inflight c) k = 0" using assms(1) by (auto simp: inflight_ok_def not_in_iff [symmetric])
  with k assms(1) show ?thesis by (auto simp: inflight_ok_def)
next
  fix k assume k: "inflight c = add_mset k (inflight c')" "on_record c - {k} \<subseteq> on_record c'"
  have c: "count (inflight c) j \<le> 1" for j using assms(1) by (simp add: inflight_ok_def)
  from c [of k] k(1) have "count (inflight c') k = 0" by simp
  moreover from c k(1) this have "count (inflight c') j \<le> 1" for j by (cases "j = k") (simp, metis count_add_mset)
  ultimately have one: "count (inflight c') j \<le> 1" "count (inflight c') k = 0" for j by simp_all
  then have "k \<notin># inflight c'" by (simp add: not_in_iff)
  moreover have "set_mset (inflight c') \<subseteq> on_record c" using assms(1) k(1) by (simp add: inflight_ok_def)
  ultimately have "set_mset (inflight c') \<subseteq> on_record c'" using k(2) by blast
  with one show ?thesis by (simp add: inflight_ok_def)
next
  assume "inflight c' = inflight c" "on_record c \<subseteq> on_record c'"
  with assms(1) show ?thesis unfolding inflight_ok_def by (metis subset_trans)
qed

lemma sched_flight:
  assumes "sch_fw (p_sched P) = in_tree_framework Q ord handle" "exec P (Sched now) c = Ok c'"
  shows "flight_step c c'"
proof -
  from assms(2) obtain W' pc' where st: "sched_step P now (c_world c, c_sched c) = Ok (W', pc')"
    and c': "c' = c\<lparr>c_world := W', c_sched := pc'\<rparr>" by (auto simp: go_simps)
  show ?thesis
  proof (cases "\<exists>v q u qs. c_sched c = Reserving v q u qs \<and> quRecord (plugins (c_world c)) (QueueUnitToKey u) = None")
    case True
    then obtain v q u qs where u: "c_sched c = Reserving v q u qs" "quRecord (plugins (c_world c)) (QueueUnitToKey u) = None"
      by blast
    then have "tasks W' = tasks (c_world c) @ [(u, v)]"
      "dom (quRecord (plugins W')) = insert (QueueUnitToKey u) (on_record c)"
      using st assms(1) by (auto simp: go_simps log_status_def Reserve_def Let_def)
    with c' u(2) show ?thesis by (auto simp: flight_step_def inflight_def)
  next
    case False
    have get: "tasks W1 = tasks (c_world c) \<and> plugins W1 = plugins (c_world c)"
      if "ErrorFunc_get (p_sched P) now u (c_world c) = (W1, x)" for u W1 x
      using that by (auto simp: ErrorFunc_get_def Let_def split: prod.splits sum.splits)
    have "tasks W' = tasks (c_world c) \<and> plugins W' = plugins (c_world c)"
    proof (cases "c_sched c")
      case (Loop v qs)
      with st show ?thesis by (cases qs) (auto simp: go_simps)
    next
      case (Failing v q u qs)
      with st get [of u] show ?thesis by (auto split: prod.splits option.splits)
    next
      case (Reserving v q u qs)
      with st False assms(1) show ?thesis by (auto simp: go_simps log_status_def)
    qed (use st in \<open>auto simp: go_simps ErrorFunc_add_def\<close>)
    with c' show ?thesis by (simp add: flight_step_def inflight_def)
  qed
qed

lemma task_flight:
  assumes "exec P (Task i) c = Ok c'"
  shows "flight_step c c'"
proof (cases "i < length (tasks (c_world c))")
  case True
  obtain u v where uv: "tasks (c_world c) ! i = (u, v)" by force
  let ?W = "(c_world c)\<lparr>tasks := without i (tasks (c_world c))\<rparr>"
  obtain W' t where t: "task_start (p_sched P) u v ?W = (W', t)" by force
  then have "tasks W' = without i (tasks (c_world c))" "plugins W' = plugins (c_world c)" "holding t = {#QueueUnitToKey u#}"
    by (auto simp: task_start_def split: prod.splits sum.splits)
  with assms True uv t show ?thesis by (auto simp: flight_step_def inflight_def waiting_without [OF True uv])
qed (use assms in \<open>simp add: flight_step_def\<close>)

lemma task_step_flight:
  assumes "sch_fw s = in_tree_framework Q ord handle" "task_step s now t W = Ok (W', r)"
  shows "tasks W' = tasks W \<and>
    (holding t = (case r of None \<Rightarrow> {#} | Some pc \<Rightarrow> holding pc) \<and> quRecord (plugins W') = quRecord (plugins W)
     \<or> (\<exists>k. holding t = {#k#} \<and> (case r of None \<Rightarrow> {#} | Some pc \<Rightarrow> holding pc) = {#}
         \<and> dom (quRecord (plugins W)) - {k} \<subseteq> dom (quRecord (plugins W'))))"
proof (cases t)
  case (Unreserving u v)
  have "dom (quRecord (plugins W)) - {QueueUnitToKey u} \<subseteq> dom (quRecord (Unreserve Q ord (plugins W) u))"
    by (auto simp: Unreserve_def Let_def split: option.splits)
  with Unreserving assms show ?thesis by (auto simp: go_simps)
next
  case (Retrying u v)
  obtain W1 x where "ErrorFunc_get s now u W = (W1, x)" by force
  moreover from this have "tasks W1 = tasks W" "plugins W1 = plugins W"
    by (auto simp: ErrorFunc_get_def Let_def split: prod.splits sum.splits)
  ultimately show ?thesis using Retrying assms(2) by (cases x) (auto split: option.splits)
qed (use assms(2) in \<open>auto simp: go_simps ErrorFunc_add_def split: prod.splits sum.splits\<close>)

lemma running_flight:
  assumes "sch_fw (p_sched P) = in_tree_framework Q ord handle" "exec P (Running i now) c = Ok c'"
  shows "flight_step c c'"
proof (cases "i < length (c_running c)")
  case True
  then obtain W' r where st: "task_step (p_sched P) now (c_running c ! i) (c_world c) = Ok (W', r)"
    and c': "c' = c\<lparr>c_world := W', c_running := (case r of None \<Rightarrow> without i (c_running c) | Some pc \<Rightarrow> (c_running c)[i := pc])\<rparr>"
    using assms(2) by (auto simp: go_simps)
  note eff = task_step_flight [OF assms(1) st]
  have "held_by (c_running c') = (case r of None \<Rightarrow> {#} | Some pc \<Rightarrow> holding pc) + held_by (without i (c_running c))"
    using c' held_by_update [OF True] by (cases r) simp_all
  then have "inflight c' = waiting (tasks (c_world c)) + ((case r of None \<Rightarrow> {#} | Some pc \<Rightarrow> holding pc) + held_by (without i (c_running c)))"
    "inflight c = waiting (tasks (c_world c)) + (holding (c_running c ! i) + held_by (without i (c_running c)))"
    using eff c' held_by_without [OF True] by (simp_all add: inflight_def)
  with eff c' show ?thesis unfolding flight_step_def by auto
qed (use assms(2) in \<open>simp add: flight_step_def\<close>)

text \<open>The listener of dequeued units takes no unit in flight off the record.\<close>

definition no_withdrawal ::
  "('q, 'q ResourceQuota, 'hd, 'w) program \<Rightarrow> ('q, 'q ResourceQuota, 'hd, 'w) config \<Rightarrow> ('q, 'w) action \<Rightarrow> bool" where
  "no_withdrawal P c a \<longleftrightarrow>
     (\<forall>t1 t2 n c'. a = DequeuedEvent t1 t2 n \<longrightarrow> exec P a c = Ok c' \<longrightarrow> set_mset (inflight c) \<subseteq> on_record c \<longrightarrow>
        set_mset (inflight c) \<subseteq> on_record c')"

lemma set_mq_fields [simp]: "tasks (set_mq m W) = tasks W" "plugins (set_mq m W) = plugins W"
  by (simp_all add: set_mq_def)

text \<open>What the steps of the listeners leave alone.\<close>

lemma listener_fields:
  fixes W W' :: "('q, 'q ResourceQuota, 'hd, 'w) world"
  shows "unit_finish t1 t2 up W = Ok W' \<Longrightarrow> tasks W' = tasks W \<and> plugins W' = plugins W"
    and "queue_start d n W = Ok (W', qp) \<Longrightarrow> tasks W' = tasks W \<and> plugins W' = plugins W"
    and "queue_finish rng qp W = Ok W' \<Longrightarrow> tasks W' = tasks W \<and> plugins W' = plugins W"
    and "dequeued_listener d fw t1 t2 n W = Ok W' \<Longrightarrow> tasks W' = tasks W"
proof -
  show "unit_finish t1 t2 up W = Ok W' \<Longrightarrow> tasks W' = tasks W \<and> plugins W' = plugins W"
    by (cases up) (auto simp: go_simps)
  show "queue_start d n W = Ok (W', qp) \<Longrightarrow> tasks W' = tasks W \<and> plugins W' = plugins W"
    by (auto simp: queue_start_def UpdateQueue_def DeleteQueue_def go_simps split: option.splits notification.splits)
  show "queue_finish rng qp W = Ok W' \<Longrightarrow> tasks W' = tasks W \<and> plugins W' = plugins W"
    by (cases qp) (auto simp: go_simps)
  show "dequeued_listener d fw t1 t2 n W = Ok W' \<Longrightarrow> tasks W' = tasks W"
    by (auto simp: dequeued_listener_def handler_defs go_simps split: option.splits notification.splits)
qed

lemma listeners_tasks:
  assumes "exec P a c = Ok c'" "\<And>now. a \<noteq> Sched now" "\<And>i. a \<noteq> Task i" "\<And>i now. a \<noteq> Running i now"
  shows "tasks (c_world c') = tasks (c_world c) \<and> c_running c' = c_running c"
  using assms by (cases a) (auto simp: go_simps dest!: listener_fields split: if_splits)

lemma listeners_flight:
  assumes "exec P a c = Ok c'" "\<And>now. a \<noteq> Sched now" "\<And>i. a \<noteq> Task i" "\<And>i now. a \<noteq> Running i now"
  shows "inflight c' = inflight c"
    "(\<And>t1 t2 n. a \<noteq> DequeuedEvent t1 t2 n) \<Longrightarrow> on_record c' = on_record c"
proof -
  show "inflight c' = inflight c" using listeners_tasks [OF assms] by (simp add: inflight_def)
  show "on_record c' = on_record c" if "\<And>t1 t2 n. a \<noteq> DequeuedEvent t1 t2 n"
    using assms that by (cases a) (auto simp: go_simps dest!: listener_fields(1-3) split: if_splits)
qed

lemma exec_flight:
  assumes "sch_fw (p_sched P) = in_tree_framework Q ord handle" "inflight_ok c" "no_withdrawal P c a" "exec P a c = Ok c'"
  shows "inflight_ok c'"
proof -
  consider "\<exists>now. a = Sched now" | "\<exists>i. a = Task i" | "\<exists>i now. a = Running i now"
    | (event) t1 t2 n where "a = DequeuedEvent t1 t2 n"
    | (other) "\<And>now. a \<noteq> Sched now" "\<And>i. a \<noteq> Task i" "\<And>i now. a \<noteq> Running i now" "\<And>t1 t2 n. a \<noteq> DequeuedEvent t1 t2 n"
    by (cases a) auto
  then show ?thesis
  proof cases
    case event
    with assms(2-4) listeners_flight(1) [OF assms(4)] show ?thesis by (auto simp: inflight_ok_def no_withdrawal_def simp del: exec.simps)
  next
    case other
    with listeners_flight [OF assms(4) other(1-3)] assms(2) show ?thesis by (simp add: inflight_ok_def)
  qed (use assms sched_flight [OF assms(1)] task_flight running_flight [OF assms(1)] flight_step_ok in blast)+
qed

lemma reachable_inflight_ok:
  assumes "sch_fw (p_sched P) = in_tree_framework Q ord handle" "inflight_ok c0"
  shows "reachable (no_withdrawal P) P c0 c \<Longrightarrow> inflight_ok c"
proof (induction rule: reachable.induct)
  case (reach_step c a c')
  with exec_flight [OF assms(1)] show ?case by blast
qed (rule assms(2))

section \<open>One goroutine per unit\<close>

text \<open>C5. Safety of dequeuing: in every interleaving in which the listener of dequeued units takes no unit
  in flight off the record, at most one goroutine is dequeuing a unit of a given key, and as long as
  it is, the unit is on record, so that the scheduler reserves it for no second goroutine.\<close>

theorem one_goroutine_per_unit:
  assumes "NewController ks (NewInTreeRegistry Q ord lister) handle s0 client w i m = Ok (sch, W)"
    and "is_range ks (NewInTreeRegistry Q ord lister)"
    and "reachable (no_withdrawal (program_of Q ord rng srt dispatch sch))
      (program_of Q ord rng srt dispatch sch) (start_config W) c"
  shows "count (inflight c) k \<le> 1 \<and> (k \<in># inflight c \<longrightarrow> quRecord (plugins (c_world c)) k \<noteq> None)"
proof -
  have sch: "sch = NewScheduler (in_tree_framework Q ord handle) client" and "tasks W = []"
    using assms(1) by (auto simp: new_controller_in_tree [OF assms(2)])
  then have "inflight_ok (start_config W)" by (simp add: inflight_ok_def inflight_def start_config_def)
  moreover have "sch_fw (p_sched (program_of Q ord rng srt dispatch sch)) = in_tree_framework Q ord handle"
    by (simp add: sch program_of_def NewScheduler_def)
  ultimately have "inflight_ok c" using reachable_inflight_ok [OF _ _ assms(3)] by blast
  then show ?thesis by (auto simp: inflight_ok_def)
qed

theorem one_goroutine_per_unit_witness:
  "count (inflight reserved_config) ''a/j'' = 1 \<and> quRecord (plugins (c_world reserved_config)) ''a/j'' \<noteq> None"
proof -
  have "reachable (no_withdrawal sample_program) sample_program (start_config sample_start) reserved_config"
    using reserved_config_reachable by (rule reachable_mono [rotated]) (auto simp: no_withdrawal_def)
  note ok = one_goroutine_per_unit [OF sample_controller sample_range this, of "''a/j''"]
  have "count (inflight reserved_config) ''a/j'' = 1"
    by (simp add: inflight_def reserved_config_def start_config_def waiting_def QueueUnitToKey_def job_def sample_defs)
  with ok show ?thesis by (simp add: count_greater_zero_iff [symmetric])
qed

end
