(* ===== verification/System_Conservation.thy ===== *)
theory System_Conservation
  imports System_Inflight
begin

text \<open>
  Where the units are. A unit that the program has is in a queue, in the scheduler's hands or with a
  goroutine; the steps of the scheduler, of its goroutines and of the flushers move units between
  these places, make none up and lose none, except for those whose update the server accepts and
  those that \<open>ErrorFunc\<close> cannot read again.
\<close>

section \<open>The units a configuration has\<close>

definition queue_keys :: "'q objects \<Rightarrow> string set" where
  "queue_keys w = (\<Union>p \<in> ran (objs w). psq.held p)"

fun hand :: "'q pc \<Rightarrow> string set" where
  "hand Idle = {}"
| "hand (Loop v qs) = {}"
| "hand (Popping v q qs) = {}"
| "hand (Filtering v q u qs) = {info_Name u}"
| "hand (Checking v q u chk qs) = {info_Name u}"
| "hand (Reserving v q u qs) = {info_Name u}"
| "hand (Failing v q u qs) = {info_Name u}"
| "hand (Returning v q u qs) = {info_Name u}"

fun task_name :: "'q task_pc \<Rightarrow> string" where
  "task_name (Updating u v newQueueUnit) = info_Name u"
| "task_name (Unreserving u v) = info_Name u"
| "task_name (Retrying u v) = info_Name u"
| "task_name (Requeueing u q) = info_Name u"

definition present :: "('q, 's, 'hd, 'w) config \<Rightarrow> string set" where
  "present c = queue_keys (objects (c_world c)) \<union> hand (c_sched c)
     \<union> (info_Name \<circ> fst) ` set (tasks (c_world c)) \<union> task_name ` set (c_running c)"

text \<open>The unit that leaves with an action: dequeued on the server, or not readable there.\<close>

definition unreadable :: "('q, 's, 'hd, 'w) program \<Rightarrow> ('q, 's, 'hd, 'w) world \<Rightarrow> 'q QueueUnitInfo \<Rightarrow> bool" where
  "unreadable P W u \<longleftrightarrow>
     (\<exists>w err. api_Get (sch_client (p_sched P)) (api W) (qu_Namespace (Unit u)) (qu_Name (Unit u)) = (w, Inl err))"

definition accepted :: "('q, 's, 'hd, 'w) program \<Rightarrow> ('q, 's, 'hd, 'w) world \<Rightarrow> 'q QueueUnitInfo \<Rightarrow> 'q QueueUnit \<Rightarrow> bool" where
  "accepted P W u newQueueUnit \<longleftrightarrow>
     (\<exists>w res. api_Update (sch_client (p_sched P)) (api W) (qu_Namespace (Unit u)) (mark_dequeued newQueueUnit) = (w, Inr res))"

fun task_leaves :: "('q, 's, 'hd, 'w) program \<Rightarrow> ('q, 's, 'hd, 'w) world \<Rightarrow> 'q task_pc \<Rightarrow> string set" where
  "task_leaves P W (Updating u v newQueueUnit) = (if accepted P W u newQueueUnit then {info_Name u} else {})"
| "task_leaves P W (Retrying u v) = (if unreadable P W u then {info_Name u} else {})"
| "task_leaves P W t = {}"

fun leaves :: "('q, 's, 'hd, 'w) program \<Rightarrow> ('q, 's, 'hd, 'w) config \<Rightarrow> ('q, 'w) action \<Rightarrow> string set" where
  "leaves P c (Sched now) =
     (case c_sched c of Failing v q u qs \<Rightarrow> if unreadable P (c_world c) u then {info_Name u} else {} | _ \<Rightarrow> {})"
| "leaves P c (Running i now) = (if i < length (c_running c) then task_leaves P (c_world c) (c_running c ! i) else {})"
| "leaves P c _ = {}"

fun internal :: "('q, 'w) action \<Rightarrow> bool" where
  "internal (Sched now) = True"
| "internal (Task i) = True"
| "internal (Running i now) = True"
| "internal (Flusher a clk) = True"
| "internal _ = False"

section \<open>Calls of a queue\<close>

definition other_keys :: "addr \<Rightarrow> 'q objects \<Rightarrow> string set" where
  "other_keys a w = (\<Union>b \<in> dom (objs w) - {a}. psq.held (the (objs w b)))"

lemma queue_keys_split: "objs w a = Some p \<Longrightarrow> queue_keys w = psq.held p \<union> other_keys a w"
  by (force simp: queue_keys_def other_keys_def ran_def)

lemma other_keys_store [simp]: "other_keys a (store a p w) = other_keys a w"
  by (auto simp: other_keys_def)

lemma queue_keys_store: "queue_keys (store a p w) = psq.held p \<union> other_keys a w"
  by (subst queue_keys_split [of _ a p]) simp_all

lemma pop_keys:
  assumes "world_ok W" "call q PSQ_Pop (objects W) = Ok (w, u)"
  shows "queue_keys (objects W) = queue_keys w \<union> {info_Name u}"
proof -
  from assms(2) obtain p p' where p: "objs (objects W) q = Some p" "PSQ_Pop p = Ok (p', u)" "w = store q p' (objects W)"
    by (auto simp: call_def deref_def go_simps split: option.splits)
  have inv: "psq_inv p" using world_okD(2) [OF assms(1) p(1)] by (simp add: queue_ok_def)
  then have "active_units p \<noteq> Map.empty" using psq.pop_empty p(2) by force
  from psq.pop_spec [OF inv this] p(2) have "psq.held p = psq.held p' \<union> {info_Name u}" by (auto simp: psq.held_def)
  then show ?thesis using queue_keys_split [OF p(1)] p(3) by (auto simp: queue_keys_store)
qed

lemma requeue_keys:
  assumes "world_ok W" "ErrorFunc_add u q W = Ok W'"
  shows "queue_keys (objects W') = queue_keys (objects W) \<union> {info_Name u} \<and> tasks W' = tasks W"
proof -
  from assms(2) obtain p p' r where p: "objs (objects W) q = Some p" "AddUnschedulableIfNotPresent p u = Ok (p', r)"
    "W' = W\<lparr>objects := store q p' (objects W)\<rparr>"
    by (auto simp: ErrorFunc_add_def call_def deref_def go_simps split: option.splits)
  have "psq_inv p" using world_okD(2) [OF assms(1) p(1)] by (simp add: queue_ok_def)
  from psq.requeue_spec [OF this, of u] p(2) have "psq.held p' = psq.held p \<union> {info_Name u}"
    by (auto simp: psq.held_def split: if_splits)
  then show ?thesis using queue_keys_split [OF p(1)] p(3) by (auto simp: queue_keys_store)
qed

lemma get_keys:
  assumes "ErrorFunc_get (p_sched P) now u W = (W', r)"
  shows "objects W' = objects W \<and> tasks W' = tasks W
    \<and> (case r of None \<Rightarrow> unreadable P W u | Some x \<Rightarrow> info_Name x = info_Name u \<and> \<not> unreadable P W u)"
  using assms by (auto simp: ErrorFunc_get_def unreadable_def Let_def split: prod.splits sum.splits)

section \<open>Each action\<close>

lemma sched_present:
  assumes "world_ok (c_world c)" "exec P (Sched now) c = Ok c'"
  shows "present c = present c' \<union> leaves P c (Sched now)"
proof -
  let ?W = "c_world c"
  from assms(2) obtain W' pc' where st: "sched_step P now (?W, c_sched c) = Ok (W', pc')"
    and c': "c' = c\<lparr>c_world := W', c_sched := pc'\<rparr>" by (auto simp: go_simps)
  show ?thesis
  proof (cases "c_sched c")
    case (Loop v qs)
    with st c' show ?thesis by (cases qs) (auto simp: go_simps present_def split: if_splits)
  next
    case (Popping v q qs)
    with st obtain w u where "call q PSQ_Pop (objects ?W) = Ok (w, u)" "W' = ?W\<lparr>objects := w\<rparr>" "pc' = Filtering v q u qs"
      by (auto simp: go_simps)
    with pop_keys [OF assms(1), of q w u] c' Popping show ?thesis by (auto simp: present_def)
  next
    case (Filtering v q u qs)
    with st c' show ?thesis by (auto simp: go_simps present_def elim: after_filter_cases)
  next
    case (Checking v q u chk qs)
    with st c' show ?thesis by (auto simp: go_simps present_def elim: after_filter_cases)
  next
    case (Reserving v q u qs)
    with st c' show ?thesis by (auto simp: go_simps present_def split: if_splits)
  next
    case (Failing v q u qs)
    obtain W1 r where g: "ErrorFunc_get (p_sched P) now u ?W = (W1, r)" by force
    with get_keys [OF g] Failing st c' show ?thesis by (cases r) (auto simp: present_def)
  next
    case (Returning v q u qs)
    with st obtain W1 where "ErrorFunc_add u q ?W = Ok W1" "W' = W1" "pc' = Loop v qs" by (auto simp: go_simps)
    with requeue_keys [OF assms(1)] Returning c' show ?thesis by (auto simp: present_def)
  qed (use st c' in \<open>auto simp: go_simps present_def\<close>)
qed

lemma set_remove: "i < length xs \<Longrightarrow> set xs = insert (xs ! i) (set (without i xs))"
  by (metis mset_without set_mset_add_mset_insert set_mset_mset)

lemma set_replace:
  assumes "i < length xs"
  shows "set (xs[i := x]) = insert x (set (without i xs))"
proof -
  have "xs[i := x] ! i = x" "without i (xs[i := x]) = without i xs" using assms by (simp_all add: without_def)
  with set_remove [of i "xs[i := x]"] assms show ?thesis by simp
qed

lemma task_present:
  assumes "exec P (Task i) c = Ok c'"
  shows "present c = present c'"
proof (cases "i < length (tasks (c_world c))")
  case True
  obtain u v where uv: "tasks (c_world c) ! i = (u, v)" by force
  let ?W = "(c_world c)\<lparr>tasks := without i (tasks (c_world c))\<rparr>"
  obtain W' t where t: "task_start (p_sched P) u v ?W = (W', t)" by force
  then have "tasks W' = without i (tasks (c_world c))" "objects W' = objects (c_world c)" "task_name t = info_Name u"
    by (auto simp: task_start_def split: prod.splits sum.splits)
  with assms True uv t show ?thesis by (auto simp: present_def set_remove [OF True])
qed (use assms in simp)

text \<open>A step of a goroutine with the unit it had: it keeps it, puts it into a queue, or the unit leaves.\<close>

lemma task_step_present:
  assumes "world_ok W" "task_step (p_sched P) now t W = Ok (W', r)"
  shows "tasks W' = tasks W \<and>
    insert (task_name t) (queue_keys (objects W)) =
      queue_keys (objects W') \<union> task_name ` set_option r \<union> task_leaves P W t"
proof (cases t)
  case (Updating u v newQueueUnit)
  with assms(2) show ?thesis by (auto simp: accepted_def split: prod.splits sum.splits)
next
  case (Unreserving u v)
  with assms(2) show ?thesis by (auto simp: go_simps)
next
  case (Retrying u v)
  obtain W1 x where g: "ErrorFunc_get (p_sched P) now u W = (W1, x)" by force
  with get_keys [OF g] Retrying assms(2) show ?thesis by (cases x) (auto split: option.splits)
next
  case (Requeueing u q)
  with assms(2) obtain W1 where "ErrorFunc_add u q W = Ok W1" "W' = W1" "r = None" by (auto simp: go_simps)
  with requeue_keys [OF assms(1)] Requeueing show ?thesis by auto
qed

lemma running_present:
  assumes "world_ok (c_world c)" "exec P (Running i now) c = Ok c'"
  shows "present c = present c' \<union> leaves P c (Running i now)"
proof (cases "i < length (c_running c)")
  case True
  then obtain W' r where st: "task_step (p_sched P) now (c_running c ! i) (c_world c) = Ok (W', r)"
    and c': "c' = c\<lparr>c_world := W', c_running := (case r of None \<Rightarrow> without i (c_running c) | Some pc \<Rightarrow> (c_running c)[i := pc])\<rparr>"
    using assms(2) by (auto simp: go_simps)
  have "set (c_running c') = set_option r \<union> set (without i (c_running c))"
    using c' set_replace [OF True] by (cases r) simp_all
  with task_step_present [OF assms(1) st] c' True show ?thesis
    by (simp add: present_def set_remove [OF True] image_Un) blast
qed (use assms(2) in simp)

lemma flusher_present:
  assumes "world_ok (c_world c)" "exec P (Flusher a clk) c = Ok c'"
  shows "present c = present c'"
proof (cases "a \<in> set (flushers (objects (c_world c)))")
  case True
  with assms(2) obtain p p' where p: "objs (objects (c_world c)) a = Some p" "flushBackoffQCompleted clk p = Ok p'"
    "c' = c\<lparr>c_world := (c_world c)\<lparr>objects := store a p' (objects (c_world c))\<rparr>\<rparr>"
    by (auto simp: call_def deref_def go_simps split: option.splits)
  have "psq_inv p" using world_okD(2) [OF assms(1) p(1)] by (simp add: queue_ok_def)
  from psq.run_held [OF this p(2)] have "psq.held p' = psq.held p" by simp
  with p queue_keys_split [OF p(1)] show ?thesis by (simp add: present_def queue_keys_store)
qed (use assms(2) in simp)

section \<open>Conservation\<close>

lemma exec_present:
  assumes "world_ok (c_world c)" "internal a" "exec P a c = Ok c'"
  shows "present c = present c' \<union> leaves P c a"
  using assms(2)
proof (cases a rule: internal.cases)
  case (1 now)
  with assms sched_present show ?thesis by blast
next
  case (2 i)
  with assms task_present show ?thesis by fastforce
next
  case (3 i now)
  with assms running_present show ?thesis by blast
next
  case (4 b clk)
  with assms flusher_present show ?thesis by fastforce
qed simp_all

text \<open>C11. Safety: in a reachable configuration a step of the scheduler, of a goroutine it started or of a
  flusher loses no unit and makes none up. The units that are in a queue, in the scheduler's hands or
  with a goroutine before the step are those that are after it, together with the one that leaves in
  this step; and a unit leaves only when the server accepts the update that marks it as dequeued, or
  when \<open>ErrorFunc\<close> cannot read it from the server.\<close>

theorem units_conserved:
  assumes "NewController ks (NewInTreeRegistry Q ord lister) handle s0 client w i m = Ok (sch, W)"
    and "is_range ks (NewInTreeRegistry Q ord lister)" "runtime_ok rng srt dispatch client"
    and "reachable (\<lambda>_. action_ok) (program_of Q ord rng srt dispatch sch) (start_config W) c"
    and "internal a" "exec (program_of Q ord rng srt dispatch sch) a c = Ok c'"
  shows "present c = present c' \<union> leaves (program_of Q ord rng srt dispatch sch) c a"
proof -
  have "config_ok c" using reachable_ok [OF started_ok(2) [OF assms(1-3)] assms(4)] started_ok(1) [OF assms(1-3)] by blast
  then show ?thesis using exec_present [OF config_okD(2) assms(5,6)] by blast
qed

theorem units_conserved_witness:
  "\<exists>c'. exec sample_program (Task 0) reserved_config = Ok c' \<and> ''a/j'' \<in> present c'"
proof -
  have reach: "reachable (\<lambda>_. action_ok) sample_program (start_config sample_start) reserved_config"
    using reserved_config_reachable by (rule reachable_mono [rotated]) (auto simp: plain_action_def)
  have tasks: "tasks (c_world reserved_config) = [(NewQueueUnitInfo 1 1 job, 0)]"
    by (simp add: reserved_config_def start_config_def)
  have name: "info_Name (NewQueueUnitInfo 1 1 job) = ''a/j''" by (simp add: NewQueueUnitInfo_def unit_key_def job_def sample_defs)
  obtain c' where c': "exec sample_program (Task 0) reserved_config = Ok c'" by (auto simp: tasks Let_def split_def)
  from units_conserved [OF sample_controller sample_range sample_runtime reach _ this] have
    "present reserved_config = present c'" by simp
  moreover have "''a/j'' \<in> present reserved_config" by (simp add: present_def tasks name)
  ultimately show ?thesis using c' by blast
qed

end
