(* ===== verification/System_Liveness.thy ===== *)
theory System_Liveness
  imports System_Conservation
begin

text \<open>
  What the program gets done: the scheduler runs forever when nothing interferes, so that the queues
  are never closed, and a unit that the scheduler finds ready and that fits its quota ends up dequeued
  on the server.
\<close>

section \<open>The scheduler does not return\<close>

lemma internalSchedule_returns_not:
  "internalSchedule rng srt s clk n W = Some r \<Longrightarrow>
     scheduler_env s \<Longrightarrow> range_ok rng \<Longrightarrow> slice_sort_ok srt \<Longrightarrow> world_ok W \<Longrightarrow> False"
proof (induction rng srt s clk n W r rule: internalSchedule.raw_induct [rotated, consumes 1, case_names pass])
  case (pass f rng srt s clk n W r)
  from scheduler_env.schedule_returns [OF pass.prems, of "clk n"] obtain W' where
    W': "schedule rng srt s (clk n) W = Ok W'" "world_ok W'" by blast
  with pass.hyps have "f rng srt s clk (Suc n) W' = Some r" by simp
  from pass.IH [OF this pass.prems(1-3) W'(2)] show False .
qed

text \<open>C18. Liveness and termination: left to itself from a well-formed world, \<^verbatim>\<open>Controller.Start\<close> never
  returns, with or without a panic: every number of passes is completed, the next one always begins,
  and the closing of the queues, which would panic, is never reached.\<close>

theorem start_never_returns:
  assumes "range_ok rng" "slice_sort_ok srt" "client_ok client" "world_ok W"
  shows "Controller_Start rng srt (NewScheduler (in_tree_framework Q ord handle) client) clk W = None
    \<and> (\<forall>n clk'. \<exists>W'. internalSchedule_n n rng srt (NewScheduler (in_tree_framework Q ord handle) client) clk' W = Ok W'
         \<and> world_ok W')"
proof
  let ?s = "NewScheduler (in_tree_framework Q ord handle) client"
  have env: "scheduler_env ?s" using assms(3) by (intro scheduler_env_in_tree) (simp_all add: NewScheduler_def)
  have "internalSchedule rng srt ?s clk 0 W = None"
    using internalSchedule_returns_not [OF _ env assms(1,2,4)] by (cases "internalSchedule rng srt ?s clk 0 W") auto
  then show "Controller_Start rng srt ?s clk W = None" by (simp add: Controller_Start_def Scheduler_Start_def)
  show "\<forall>n clk'. \<exists>W'. internalSchedule_n n rng srt ?s clk' W = Ok W' \<and> world_ok W'"
    using scheduling_passes_return [OF assms] by blast
qed

theorem start_never_returns_witness:
  "Controller_Start name_order insertion_sort (two_scheduler store_client) (\<lambda>_ _. 5) (two_world [''a/j'' \<mapsto> job]) = None"
  using start_never_returns [OF name_order_ok insertion_sort_ok store_client_ok two_world_ok] by blast

section \<open>A unit that fits is dequeued\<close>

text \<open>A round in which the unit passes and is reserved.\<close>

lemma round_reserves:
  assumes "in_tree_program P" "objs (objects W) q = Some p" "0 < PSQ_Length p" "PSQ_Pop p = Ok (p1, u)"
    and "Filter (p_quantity P) (p_order P) (plugins W) u = Ok st" "Status_Code st = Ok Success"
    and "quRecord (plugins W) (QueueUnitToKey u) = None"
  shows "schedule_round (p_sched P) now v q W =
    Ok (W\<lparr>vars := (vars W)(v \<mapsto> q), objects := store q p1 (objects W),
        plugins := fst (Reserve (p_quantity P) (p_order P) (plugins W) u), tasks := tasks W @ [(u, v)]\<rparr>)"
proof -
  obtain handle where fw: "sch_fw (p_sched P) = in_tree_framework (p_quantity P) (p_order P) handle"
    using assms(1) by (auto simp: in_tree_program_def)
  obtain m where "st = NewStatus Success m"
    using Filter_status [OF assms(5)] assms(6) by auto
  with assms fw show ?thesis
    by (simp add: schedule_round_tail filter_tail_def reserve_tail_def call_def deref_def log_status_def Let_def)
qed

text \<open>The goroutine of that round, when the server answers.\<close>

lemma task_dequeues:
  assumes "tasks (c_world c) = ts @ [(u, v)]"
    and "api_Get (sch_client (p_sched P)) (api (c_world c)) (qu_Namespace (Unit u)) (qu_Name (Unit u)) = (w1, Inr new)"
    and "api_Update (sch_client (p_sched P)) w1 (qu_Namespace (Unit u)) (mark_dequeued new) = (w2, Inr res)"
  shows "run_actions P [Task (length ts), Running (length (c_running c)) now] c =
    Ok (c\<lparr>c_world := (c_world c)\<lparr>tasks := ts, api := w2\<rparr>\<rparr>)"
  using assms by (simp add: without_def task_start_def)



end
