(* ===== verification/System_Fairness.thy ===== *)
theory System_Fairness
  imports System_Conservation
begin

text \<open>
  Infinite runs of the whole program. If the scheduler's goroutine always gets to run again, then it
  completes pass after pass whatever the other goroutines do in between, and in every pass it comes
  to every queue that stays in the collection. The argument is a rank of the points of \<open>schedule\<close>
  that gets smaller with each of its steps, up to the end of the pass.
\<close>

section \<open>What leads to what\<close>

text \<open>
  Steps of a process are scheduled again and again (\<open>S\<close>). If from the times with \<open>I\<close> each step that does
  not reach the goal \<open>G\<close> keeps \<open>I\<close> and goes down in a well-founded order, or is not scheduled and stays
  where it is, then the goal is reached.
\<close>

lemma leads_to:
  assumes "wf R" "\<And>m. \<exists>n\<ge>m. S n"
    and step: "\<And>n. I n \<Longrightarrow> \<not> G n \<Longrightarrow> I (Suc n) \<and> ((x (Suc n), x n) \<in> R \<or> \<not> S n \<and> x (Suc n) = x n)"
  shows "I m \<Longrightarrow> \<exists>n\<ge>m. G n"
proof (induction "x m" arbitrary: m rule: wf_induct_rule [OF assms(1)])
  case 1
  show ?case
  proof (rule ccontr)
    assume never: "\<not> (\<exists>n\<ge>m. G n)"
    have "I i" if "m \<le> i" for i
      using that
    proof (induction i rule: dec_induct)
      case (step i)
      then show ?case using never assms(3) [of i] by blast
    qed (rule 1(2))
    moreover have "(x i, x m) \<notin> R" if "m \<le> i" for i
      using 1(1) [OF _ calculation [OF that]] never that le_trans by blast
    moreover have "x i = x m" if "m \<le> i" for i
      using that
    proof (induction i rule: dec_induct)
      case (step i)
      then show ?case using never calculation assms(3) [of i] by (metis le_SucI)
    qed simp
    moreover obtain k where "m \<le> k" "S k" using assms(2) by blast
    ultimately show False using never assms(3) [of k] by (metis le_SucI)
  qed
qed

section \<open>The scheduler's points\<close>

fun rank :: "'q pc \<Rightarrow> nat \<times> nat \<times> nat" where
  "rank Idle = (0, 0, 0)"
| "rank (Loop v qs) = (length qs, 0, 1)"
| "rank (Popping v q qs) = (length qs, 6, 0)"
| "rank (Filtering v q u qs) = (length qs, 5, 0)"
| "rank (Checking v q u (ns, bn, hard, res, rs) qs) = (length qs, 4, length rs)"
| "rank (Reserving v q u qs) = (length qs, 3, 0)"
| "rank (Failing v q u qs) = (length qs, 2, 0)"
| "rank (Returning v q u qs) = (length qs, 1, 0)"

text \<open>The queues that the pass has not come to yet.\<close>

fun todo :: "'q pc \<Rightarrow> addr list" where
  "todo Idle = []"
| "todo (Loop v qs) = qs"
| "todo (Popping v q qs) = qs"
| "todo (Filtering v q u qs) = qs"
| "todo (Checking v q u chk qs) = qs"
| "todo (Reserving v q u qs) = qs"
| "todo (Failing v q u qs) = qs"
| "todo (Returning v q u qs) = qs"

fun visiting :: "addr \<Rightarrow> 'q pc \<Rightarrow> bool" where
  "visiting a (Loop v (q # qs)) = (q = a)"
| "visiting a pc = False"

abbreviation lower :: "('q pc \<times> 'q pc) set" where
  "lower \<equiv> inv_image (less_than <*lex*> less_than <*lex*> less_than) rank"

lemma wf_lower: "wf lower"
  by (simp add: wf_inv_image wf_lex_prod)

lemma Filter_step_shorter:
  "Filter_step Q rq (ns, bn, hard, res, rs) = Inr (ns', bn', hard', res', rs') \<Longrightarrow> length rs' < length rs"
  by (cases rs) (auto simp: Filter_step_cases simp del: Filter_step.simps(2) split: if_splits)

text \<open>A step that does not begin a pass goes down, and leaves out no queue that it is not visiting.\<close>

lemma sched_step_lower:
  assumes "sched_step P now (W, pc) = Ok (W', pc')" "pc \<noteq> Idle"
  shows "(pc', pc) \<in> lower \<and> (a \<in> set (todo pc) \<longrightarrow> visiting a pc \<or> a \<in> set (todo pc'))"
proof (cases pc)
  case (Loop v qs)
  with assms show ?thesis by (cases qs) (auto simp: go_simps split: if_splits)
next
  case (Filtering v q u qs)
  with assms(1) obtain r where "after_filter v q u qs r = Ok pc'" by (auto simp: go_simps)
  then show ?thesis
  proof (cases rule: after_filter_cases)
    case (check chk)
    with Filtering show ?thesis by (cases chk) simp
  qed (use Filtering in auto)
next
  case (Checking v q u chk qs)
  obtain ns bn hard res rs where chk: "chk = (ns, bn, hard, res, rs)" by (cases chk)
  from Checking assms(1) have "after_filter v q u qs (Filter_step (p_quantity P) (plugins W) chk) = Ok pc'"
    by (auto simp: go_simps)
  then show ?thesis
  proof (cases rule: after_filter_cases)
    case (check chk')
    obtain ns' bn' hard' res' rs' where chk': "chk' = (ns', bn', hard', res', rs')" by (cases chk')
    with check(1) chk have "length rs' < length rs" using Filter_step_shorter by fast
    with check(2) Checking chk chk' show ?thesis by simp
  qed (use Checking chk in auto)
next
  case (Failing v q u qs)
  with assms(1) show ?thesis by (auto split: prod.splits option.splits)
qed (use assms in \<open>auto simp: go_simps split: if_splits\<close>)

section \<open>Runs\<close>

definition is_run ::
  "('q, 'q ResourceQuota, 'hd, 'w) program \<Rightarrow> ('q, 'q ResourceQuota, 'hd, 'w) config \<Rightarrow> (nat \<Rightarrow> ('q, 'w) action)
   \<Rightarrow> (nat \<Rightarrow> ('q, 'q ResourceQuota, 'hd, 'w) config) \<Rightarrow> bool" where
  "is_run P c0 act conf \<longleftrightarrow> conf 0 = c0 \<and> (\<forall>n. action_ok (act n) \<and> exec P (act n) (conf n) = Ok (conf (Suc n)))"

text \<open>The goroutine of the scheduler gets to run again and again.\<close>

definition scheduler_runs :: "(nat \<Rightarrow> ('q, 'w) action) \<Rightarrow> bool" where
  "scheduler_runs act \<longleftrightarrow> (\<forall>m. \<exists>n\<ge>m. \<exists>now. act n = Sched now)"

lemma run_reachable: "is_run P c0 act conf \<Longrightarrow> reachable (\<lambda>_. action_ok) P c0 (conf n)"
  by (induction n) (auto simp: is_run_def intro: reachable.intros)

lemma exec_sched: "exec P (Sched now) c = Ok c' \<Longrightarrow> sched_step P now (c_world c, c_sched c) = Ok (c_world c', c_sched c')"
  by (auto simp: go_simps)

lemma exec_other: "exec P a c = Ok c' \<Longrightarrow> (\<And>now. a \<noteq> Sched now) \<Longrightarrow> c_sched c' = c_sched c"
  by (cases a) (auto simp: go_simps Let_def split: if_splits prod.splits)

text \<open>
  In a run the scheduler gets to the end of its pass, and before that to each queue it has to do; a
  queue that is not empty when the scheduler comes to it loses a unit in the scheduler's next step.
\<close>

lemma run_leads_to:
  assumes "is_run P c0 act conf" "scheduler_runs act"
    and "\<And>W W' pc pc' now. sched_step P now (W, pc) = Ok (W', pc') \<Longrightarrow> I pc \<Longrightarrow> \<not> G pc \<Longrightarrow> I pc' \<and> (pc', pc) \<in> lower"
    and "I (c_sched (conf m))"
  shows "\<exists>n\<ge>m. \<exists>now. act n = Sched now \<and> G (c_sched (conf n))"
proof -
  have next_run: "exec P (act n) (conf n) = Ok (conf (Suc n))" for n using assms(1) by (simp add: is_run_def)
  show ?thesis
  proof (rule leads_to [OF wf_lower, where x = "\<lambda>n. c_sched (conf n)" and I = "\<lambda>n. I (c_sched (conf n))"
        and S = "\<lambda>n. \<exists>now. act n = Sched now"])
    show "\<exists>n\<ge>m. \<exists>now. act n = Sched now" for m using assms(2) by (simp add: scheduler_runs_def)
    fix n assume I: "I (c_sched (conf n))" "\<not> (\<exists>now. act n = Sched now \<and> G (c_sched (conf n)))"
    show "I (c_sched (conf (Suc n))) \<and> ((c_sched (conf (Suc n)), c_sched (conf n)) \<in> lower
        \<or> \<not> (\<exists>now. act n = Sched now) \<and> c_sched (conf (Suc n)) = c_sched (conf n))"
    proof (cases "\<exists>now. act n = Sched now")
      case True
      then show ?thesis using I assms(3) exec_sched next_run [of n] by (metis (no_types))
    next
      case False
      then show ?thesis using I(1) exec_other [OF next_run [of n]] by metis
    qed
  qed (rule assms(4))
qed

lemma pass_ends:
  assumes "is_run P c0 act conf" "scheduler_runs act"
  shows "\<exists>n\<ge>m. \<exists>now. act n = Sched now \<and> c_sched (conf n) = Idle"
  by (rule run_leads_to [OF assms, where I = "\<lambda>_. True"]) (use sched_step_lower in blast)+

lemma pass_visits:
  assumes "is_run P c0 act conf" "scheduler_runs act" "a \<in> set (todo (c_sched (conf m)))"
  shows "\<exists>n\<ge>m. \<exists>now. act n = Sched now \<and> visiting a (c_sched (conf n))"
proof (rule run_leads_to [OF assms(1,2), where I = "\<lambda>pc. a \<in> set (todo pc)"])
  fix W W' pc pc' now
  assume "sched_step P now (W, pc) = Ok (W', pc')" "a \<in> set (todo pc)" "\<not> visiting a pc"
  moreover from this have "pc \<noteq> Idle" by auto
  ultimately show "a \<in> set (todo pc') \<and> (pc', pc) \<in> lower" using sched_step_lower by blast
qed (rule assms(3))

lemma pass_pops:
  assumes "is_run P c0 act conf" "scheduler_runs act" "c_sched (conf m) = Popping v a qs"
  shows "\<exists>n\<ge>m. \<exists>u. c_sched (conf n) = Popping v a qs \<and> c_sched (conf (Suc n)) = Filtering v a u qs"
proof -
  have "\<exists>n\<ge>m. \<exists>now. act n = Sched now \<and> c_sched (conf n) = Popping v a qs"
    by (rule run_leads_to [OF assms(1,2), where I = "\<lambda>pc. pc = Popping v a qs"]) (use assms(3) in simp_all)
  then obtain n now where n: "n \<ge> m" "act n = Sched now" "c_sched (conf n) = Popping v a qs" by blast
  have "exec P (Sched now) (conf n) = Ok (conf (Suc n))" using assms(1) n(2) by (metis is_run_def)
  from exec_sched [OF this] n(3) obtain u where "c_sched (conf (Suc n)) = Filtering v a u qs" by (auto simp: go_simps) metis
  with n(1,3) show ?thesis by blast
qed

section \<open>No queue starves\<close>

lemma idle_step_todo:
  assumes "program_ok P" "config_ok c" "c_sched c = Idle" "exec P (Sched now) c = Ok c'"
    and "a \<in> ran (queueMap (mqueue (c_world c)))"
  shows "a \<in> set (todo (c_sched c'))"
proof -
  have "mq_ready (mqueue (c_world c), objects (c_world c))"
    using config_okD(2) [OF assms(2)] by (simp add: world_ok_def)
  from SortedQueue_spec [OF program_okD(3,4) [OF assms(1)] this] assms(3-5) show ?thesis
    by (auto simp: GetQueueByName_def)
qed

lemma visit_pops:
  assumes "is_run P c0 act conf" "scheduler_runs act" "act n = Sched now" "c_sched (conf n) = Loop v (a # qs)"
    and "objs (objects (c_world (conf n))) a = Some p" "0 < PSQ_Length p"
  shows "\<exists>k>n. \<exists>u. c_sched (conf k) = Popping v a qs \<and> c_sched (conf (Suc k)) = Filtering v a u qs"
proof -
  have "exec P (Sched now) (conf n) = Ok (conf (Suc n))" using assms(1,3) by (metis is_run_def)
  from exec_sched [OF this] assms(4-6) have "c_sched (conf (Suc n)) = Popping v a qs" by auto
  from pass_pops [OF assms(1,2) this] show ?thesis by (meson Suc_le_lessD)
qed


section \<open>An example of a run\<close>

text \<open>The run that a sequence of actions gives, as long as none panics.\<close>

primrec run_of ::
  "('q, 'q ResourceQuota, 'hd, 'w) program \<Rightarrow> ('q, 'q ResourceQuota, 'hd, 'w) config \<Rightarrow> (nat \<Rightarrow> ('q, 'w) action)
   \<Rightarrow> nat \<Rightarrow> ('q, 'q ResourceQuota, 'hd, 'w) config" where
  "run_of P c0 act 0 = c0"
| "run_of P c0 act (Suc n) = (case exec P (act n) (run_of P c0 act n) of Ok c \<Rightarrow> c | Panic e \<Rightarrow> run_of P c0 act n)"

declare run_of.simps(2) [simp del]

lemma run_of_step: "exec P (act n) (run_of P c0 act n) = Ok c \<Longrightarrow> run_of P c0 act (Suc n) = c"
  by (simp add: run_of.simps(2))

text \<open>A run that comes, by a sequence of actions, to configurations in which no action panics.\<close>

lemma run_of_prefix:
  "run_actions P (map act [0..<n]) c0 = Ok c \<Longrightarrow> run_of P c0 act n = c
    \<and> (\<forall>j<n. exec P (act j) (run_of P c0 act j) = Ok (run_of P c0 act (Suc j)))"
proof (induction n arbitrary: c)
  case (Suc n)
  then obtain c1 where "run_actions P (map act [0..<n]) c0 = Ok c1" "exec P (act n) c1 = Ok c"
    by (auto simp: run_actions_append go_bind_eq_Ok simp del: exec.simps)
  with Suc.IH [of c1] run_of_step [of P act n c0 c] show ?case by (simp add: less_Suc_eq all_conj_distrib del: exec.simps)
qed simp

lemma run_of_steady:
  assumes "J (run_of P c0 act n)" "\<And>j c. J c \<Longrightarrow> n \<le> j \<Longrightarrow> \<exists>c'. exec P (act j) c = Ok c' \<and> J c'"
  shows "n \<le> j \<Longrightarrow> J (run_of P c0 act j) \<and> exec P (act j) (run_of P c0 act j) = Ok (run_of P c0 act (Suc j))"
proof (induction j rule: nat_induct_at_least)
  case base
  from assms(2) [OF assms(1)] obtain c where "exec P (act n) (run_of P c0 act n) = Ok c" by blast
  with run_of_step [OF this] assms(1) show ?case by simp
next
  case (Suc j)
  from assms(2) [OF conjunct1 [OF Suc.IH] Suc.hyps] Suc.IH have J: "J (run_of P c0 act (Suc j))" by auto
  with assms(2) [OF J, of "Suc j"] Suc.hyps obtain c where "exec P (act (Suc j)) (run_of P c0 act (Suc j)) = Ok c" by auto
  with run_of_step [OF this] J show ?case by simp
qed

lemma run_of_is_run:
  assumes "run_actions P (map act [0..<n]) c0 = Ok c" "J c"
    and "\<And>j c. J c \<Longrightarrow> n \<le> j \<Longrightarrow> \<exists>c'. exec P (act j) c = Ok c' \<and> J c'" "\<And>j. action_ok (act j)"
  shows "is_run P c0 act (run_of P c0 act)" "n \<le> j \<Longrightarrow> J (run_of P c0 act j)"
proof -
  note pre = run_of_prefix [OF assms(1)]
  have "J (run_of P c0 act n)" using pre assms(2) by simp
  from run_of_steady [of J, OF this assms(3)] pre assms(4)
  show "is_run P c0 act (run_of P c0 act)" "n \<le> j \<Longrightarrow> J (run_of P c0 act j)"
    unfolding is_run_def by (auto simp del: exec.simps) (metis not_le)
qed

text \<open>
  The queue "a" and a unit are added, the scheduler takes the unit in its first pass, the goroutine
  marks it as dequeued; then the scheduler makes its passes, and no goroutine is left to run.
\<close>

definition sample_act :: "nat \<Rightarrow> (int, unit) action" where
  "sample_act n = (if n < 13 then (reserving_actions @ [Task 0, Running 0 5]) ! n else if n mod 3 = 0 then Sched 5 else if n mod 3 = 1 then Task 0 else Running 0 5)"

abbreviation sample_run :: "nat \<Rightarrow> (int, int ResourceQuota, unit, unit) config" where
  "sample_run \<equiv> run_of sample_program (start_config sample_start) sample_act"

text \<open>Its configurations from then on.\<close>

definition quiet :: "(int, int ResourceQuota, unit, unit) config \<Rightarrow> bool" where
  "quiet c \<longleftrightarrow> (\<exists>k vs pc pl. c = (start_config ((race_world empty_a)\<lparr>next_var := k, vars := vs, plugins := pl\<rparr>))\<lparr>c_sched := pc\<rparr>
     \<and> (pc = Idle \<or> (\<exists>v. pc = Loop v [0] \<or> pc = Loop v [])))"

lemma quiet_queue: "quiet c \<Longrightarrow> 0 \<in> ran (queueMap (mqueue (c_world c)))"
  by (auto simp: quiet_def start_config_def)

lemma quiet_step:
  assumes "quiet c" "a \<in> {Sched 5, Task 0, Running 0 5}"
  shows "\<exists>c'. exec sample_program a c = Ok c' \<and> quiet c'"
proof -
  let ?W = "\<lambda>k vs pl. (race_world empty_a)\<lparr>next_var := k, vars := vs, plugins := pl\<rparr>"
  let ?C = "\<lambda>k vs pl pc. (start_config (?W k vs pl))\<lparr>c_sched := pc\<rparr>"
  have len: "PSQ_Length empty_a = 0"
    by (simp add: PSQ_Length_def SetRunStatus_def queue_for_def NewPrioritySchedulingQueue_def Heap_New_def
        NewWithRecorder_def Heap_Len_def data_defs Let_def)
  have idle: "exec sample_program (Sched 5) (?C k vs pl Idle) = Ok (?C (Suc k) vs pl (Loop k [0]))" for k vs pl
    by (simp add: program_of_def SortedQueue_def ranged_def name_order_def map_filter_simps deref_def
        PSQ_QueueInfo_def insertion_sort_def start_config_def)
  have visit: "exec sample_program (Sched 5) (?C k vs pl (Loop v [0])) = Ok (?C k (vs(v \<mapsto> 0)) pl (Loop v []))" for k vs pl v
    using len by (simp add: deref_def start_config_def)
  have finish: "exec sample_program (Sched 5) (?C k vs pl (Loop v [])) = Ok (?C k vs pl Idle)" for k vs pl v
    by (simp add: start_config_def)
  have stays: "exec sample_program (Task 0) c = Ok c" "exec sample_program (Running 0 5) c = Ok c"
    using assms(1) by (auto simp: quiet_def start_config_def race_world_def sample_start_def)
  have sched: "\<exists>c'. exec sample_program (Sched 5) c = Ok c' \<and> quiet c'"
    using assms(1) idle visit finish unfolding quiet_def by (elim exE conjE disjE) blast+
  consider "a = Sched 5" | "a = Task 0" | "a = Running 0 5" using assms(2) by blast
  then show ?thesis
  proof cases
    case 1
    show ?thesis unfolding 1 by (rule sched)
  next
    case 2
    show ?thesis unfolding 2 stays(1) using assms(1) by simp
  next
    case 3
    show ?thesis unfolding 3 stays(2) using assms(1) by simp
  qed
qed

lemma sample_act_prefix:
  "map sample_act [0..<11] = reserving_actions" "map sample_act [0..<13] = reserving_actions @ [Task 0, Running 0 5]"
  by (simp_all add: sample_act_def reserving_actions_def upt_rec numeral_nat)

lemma dequeue_job:
  "\<exists>c. run_actions sample_program [Task 0, Running 0 5] reserved_config = Ok c \<and> quiet c"
proof -
  let ?u = "NewQueueUnitInfo 1 1 job" and ?W = "(c_world reserved_config)\<lparr>tasks := []\<rparr>"
  have get: "task_start (two_scheduler job_client) ?u 0 ?W = (?W, Updating ?u 0 job)"
    by (simp add: task_start_def NewScheduler_def job_client_def job_def sample_defs reserved_config_def start_config_def
        race_world_def sample_start_def)
  have upd: "task_step (two_scheduler job_client) 5 (Updating ?u 0 job) ?W = Ok (?W, None)"
    by (simp add: NewScheduler_def job_client_def reserved_config_def start_config_def race_world_def sample_start_def)
  have "run_actions sample_program [Task 0, Running 0 5] reserved_config = Ok (reserved_config\<lparr>c_world := ?W\<rparr>)"
    using get upd by (simp add: reserved_config_def start_config_def program_of_def without_def)
  moreover have "quiet (reserved_config\<lparr>c_world := ?W\<rparr>)"
    unfolding quiet_def
    by (intro exI [of _ 1] exI [of _ "[0 \<mapsto> 0]"] exI [of _ "Loop 0 []"] exI [of _ job_reserved])
      (simp add: reserved_config_def start_config_def race_world_def sample_start_def)
  ultimately show ?thesis by blast
qed

lemma sample_run_ok:
  "is_run sample_program (start_config sample_start) sample_act sample_run"
  "13 \<le> n \<Longrightarrow> quiet (sample_run n)"
proof -
  obtain c where c: "run_actions sample_program (map sample_act [0..<13]) (start_config sample_start) = Ok c" "quiet c"
    using dequeue_job by (auto simp: sample_act_prefix(2) run_actions_append reserving_actions_run simp del: run_actions.simps)
  have steady: "\<exists>c'. exec sample_program (sample_act j) c = Ok c' \<and> quiet c'" if "quiet c" "13 \<le> j" for j c
    using that(2) by (intro quiet_step [OF that(1)]) (simp add: sample_act_def)
  have "\<forall>j<13. action_ok ((reserving_actions @ [Task 0, Running 0 5]) ! j)"
    by (simp add: reserving_actions_def numeral_nat All_less_Suc qa_def job_def sample_queue_def sample_unit_def)
  then have "action_ok (sample_act j)" for j by (simp add: sample_act_def)
  from run_of_is_run [OF c steady this]
  show "is_run sample_program (start_config sample_start) sample_act sample_run" "13 \<le> n \<Longrightarrow> quiet (sample_run n)"
    by blast+
qed

lemma sample_act_later: "sample_act (3 * m + 15) = Sched 5" "sample_act (3 * m + 16) = Task 0" "sample_act (3 * m + 17) = Running 0 5"
  by (simp_all add: sample_act_def mod_simps)

lemma sample_run_at_reserved: "sample_run 11 = reserved_config"
  using run_of_prefix [of sample_program sample_act 11] by (simp add: sample_act_prefix(1) reserving_actions_run)


end
