(* ===== verification/System_Settling.thy ===== *)
theory System_Settling
  imports System_Fairness
begin

text \<open>
  Where every unit ends up that the scheduler has taken out of a queue. In a run in which the
  scheduler's goroutine gets to run again and again, and of the goroutines it started the oldest, each
  such unit leaves the scheduler's hands, its goroutine begins and ends, and then it is dequeued on
  the server, back in a queue, or lost because \<open>ErrorFunc\<close> could not read it. The argument follows the
  unit from place to place; in each place a number goes down that no other action raises.
\<close>

section \<open>Work before an element\<close>

text \<open>The work \<open>w\<close> of a list up to and including the first element with the name \<open>k\<close>.\<close>

fun before :: "('a \<Rightarrow> nat) \<Rightarrow> ('a \<Rightarrow> string) \<Rightarrow> string \<Rightarrow> 'a list \<Rightarrow> nat" where
  "before w f k [] = 0"
| "before w f k (x # xs) = w x + (if f x = k then 0 else before w f k xs)"

lemma before_append: "k \<in> f ` set xs \<Longrightarrow> before w f k (xs @ ys) = before w f k xs"
  by (induction xs) auto

lemma without_simps [simp]: "without 0 (x # xs) = xs" "without (Suc i) (x # xs) = x # without i xs"
  by (simp_all add: without_def)

lemma before_without:
  assumes "\<And>x. 0 < w x"
  shows "i < length xs \<Longrightarrow> f (xs ! i) \<noteq> k \<Longrightarrow> before w f k (without i xs) \<le> before w f k xs
    \<and> (i = 0 \<longrightarrow> before w f k (without i xs) < before w f k xs)"
proof (induction xs arbitrary: i)
  case (Cons x xs)
  with assms [of x] show ?case by (cases i) auto
qed simp

lemma before_update:
  "i < length xs \<Longrightarrow> f y = f (xs ! i) \<Longrightarrow> w y < w (xs ! i) \<Longrightarrow> before w f k (xs[i := y]) \<le> before w f k xs
    \<and> (i = 0 \<longrightarrow> before w f k (xs[i := y]) < before w f k xs)"
proof (induction xs arbitrary: i)
  case (Cons x xs)
  then show ?case by (cases i) auto
qed simp

lemma named_without: "i < length xs \<Longrightarrow> k \<in> f ` set xs \<Longrightarrow> f (xs ! i) = k \<or> k \<in> f ` set (without i xs)"
  by (auto simp: set_remove [of i xs])

lemma named_update: "i < length xs \<Longrightarrow> f y = f (xs ! i) \<Longrightarrow> f ` set (xs[i := y]) = f ` set xs"
  by (simp add: set_replace set_remove [of i xs])

section \<open>The places of a unit\<close>

abbreviation begun :: "('q, 's, 'hd, 'w) config \<Rightarrow> ('q QueueUnitInfo \<times> nat) list" where
  "begun c \<equiv> tasks (c_world c)"

abbreviation start_name :: "'q QueueUnitInfo \<times> nat \<Rightarrow> string" where
  "start_name \<equiv> info_Name \<circ> fst"

text \<open>The steps a goroutine has still to take, at most.\<close>

fun steps_left :: "'q task_pc \<Rightarrow> nat" where
  "steps_left (Updating u v newQueueUnit) = 4"
| "steps_left (Unreserving u v) = 3"
| "steps_left (Retrying u v) = 2"
| "steps_left (Requeueing u q) = 1"

lemma steps_left_pos: "0 < steps_left t"
  by (cases t) simp_all

lemma task_step_left:
  assumes "task_step s now t W = Ok (W', Some t')"
  shows "task_name t' = task_name t \<and> steps_left t' < steps_left t"
proof (cases t)
  case (Retrying u v)
  then show ?thesis using assms
    by (auto simp: ErrorFunc_get_def Let_def split: option.splits prod.splits sum.splits)
qed (use assms in \<open>auto simp: go_simps split: prod.splits sum.splits\<close>)

text \<open>The unit \<open>k\<close> leaves with the action \<open>a\<close> in \<open>c\<close>, or it is in a queue then, in \<open>c'\<close>.\<close>

definition settles ::
  "('q, 's, 'hd, 'w) program \<Rightarrow> string \<Rightarrow> ('q, 's, 'hd, 'w) config \<Rightarrow> ('q, 'w) action \<Rightarrow> ('q, 's, 'hd, 'w) config \<Rightarrow> bool" where
  "settles P k c a c' \<longleftrightarrow> k \<in> leaves P c a \<or> k \<in> queue_keys (objects (c_world c'))"

section \<open>One action\<close>

lemma reserve_step:
  "sched_step P now (W, Reserving v q u qs) = Ok (W', pc') \<Longrightarrow> pc' = Failing v q u qs \<or> tasks W' = tasks W @ [(u, v)]"
  by (auto simp: go_simps split: if_splits)

text \<open>The scheduler keeps the unit it has, hands it to a goroutine, or it settles.\<close>

lemma sched_hand:
  assumes "world_ok (c_world c)" "exec P (Sched now) c = Ok c'" "k \<in> hand (c_sched c)"
  shows "k \<in> hand (c_sched c') \<or> k \<in> start_name ` set (begun c') \<or> settles P k c (Sched now) c'"
proof -
  let ?W = "c_world c"
  note st = exec_sched [OF assms(2)]
  show ?thesis
  proof (cases "c_sched c")
    case (Filtering v q u qs)
    with st assms(3) obtain r where r: "after_filter v q u qs r = Ok (c_sched c')" by (auto simp: go_simps)
    from r show ?thesis by (cases rule: after_filter_cases) (use Filtering assms(3) in auto)
  next
    case (Checking v q u chk qs)
    with st have "after_filter v q u qs (Filter_step (p_quantity P) (plugins ?W) chk) = Ok (c_sched c')" by (auto simp: go_simps)
    then show ?thesis by (cases rule: after_filter_cases) (use Checking assms(3) in auto)
  next
    case (Reserving v q u qs)
    with reserve_step [OF st [unfolded Reserving]] assms(3) show ?thesis by auto
  next
    case (Failing v q u qs)
    obtain W1 r where g: "ErrorFunc_get (p_sched P) now u ?W = (W1, r)" by force
    with Failing st have pc: "pred_option (\<lambda>x. c_sched c' = Returning v q x qs) r" by (cases r) simp_all
    with get_keys [OF g] Failing assms(3) show ?thesis by (cases r) (simp_all add: settles_def)
  next
    case (Returning v q u qs)
    with st have "ErrorFunc_add u q ?W = Ok (c_world c')" by (auto simp: go_simps)
    from requeue_keys [OF assms(1) this] Returning assms(3) show ?thesis by (simp add: settles_def)
  qed (use assms(3) in simp_all)
qed

text \<open>Other actions leave the list of started goroutines, but for new ones at its end.\<close>

lemma sched_step_tasks:
  assumes "sched_step P now (W, pc) = Ok (W', pc')"
  shows "\<exists>us. tasks W' = tasks W @ us"
proof (cases pc)
  case (Loop v qs)
  with assms show ?thesis by (cases qs) (auto simp: go_simps)
next
  case (Failing v q u qs)
  obtain W1 r where g: "ErrorFunc_get (p_sched P) now u W = (W1, r)" by force
  with get_keys [OF g] Failing assms show ?thesis by (cases r) auto
qed (use assms in \<open>auto simp: go_simps ErrorFunc_add_def split: if_splits\<close>)

lemma exec_running:
  assumes "exec P (Running i now) c = Ok c'" "i < length (c_running c)"
  obtains r where "task_step (p_sched P) now (c_running c ! i) (c_world c) = Ok (c_world c', r)"
    "c_running c' = (case r of None \<Rightarrow> without i (c_running c) | Some t \<Rightarrow> (c_running c)[i := t])"
  using assms by (auto simp: go_simps)

lemma exec_task:
  assumes "exec P (Task i) c = Ok c'" "i < length (begun c)"
  shows "begun c' = without i (begun c) \<and> (\<exists>t. c_running c' = c_running c @ [t] \<and> task_name t = start_name (begun c ! i))"
proof -
  obtain u v where uv: "begun c ! i = (u, v)" by force
  let ?W = "(c_world c)\<lparr>tasks := without i (begun c)\<rparr>"
  obtain W' t where t: "task_start (p_sched P) u v ?W = (W', t)" by force
  then have "tasks W' = without i (begun c)" "task_name t = info_Name u"
    by (auto simp: task_start_def split: prod.splits sum.splits)
  with assms uv t show ?thesis by auto
qed

text \<open>Other actions leave the two lists alone, but for new goroutines at their ends.\<close>

lemma started_other:
  assumes "world_ok (c_world c)" "exec P a c = Ok c'" "\<And>i. a \<noteq> Task i"
  shows "\<exists>us. begun c' = begun c @ us"
proof -
  consider now where "a = Sched now" | i now where "a = Running i now"
    | "\<And>now. a \<noteq> Sched now" "\<And>i now. a \<noteq> Running i now" by blast
  then show ?thesis
  proof cases
    case 1
    with sched_step_tasks exec_sched assms(2) show ?thesis by blast
  next
    case 2
    show ?thesis
    proof (cases "i < length (c_running c)")
      case True
      then obtain r where "task_step (p_sched P) now (c_running c ! i) (c_world c) = Ok (c_world c', r)"
        using exec_running [OF assms(2) [unfolded 2]] by blast
      with task_step_present [OF assms(1) this] show ?thesis by simp
    qed (use 2 assms(2) in simp)
  next
    case 3
    with listeners_tasks [OF assms(2)] assms(3) show ?thesis by auto
  qed
qed

lemma running_other:
  assumes "exec P a c = Ok c'" "\<And>i now. a \<noteq> Running i now"
  shows "\<exists>us. c_running c' = c_running c @ us"
proof -
  consider now where "a = Sched now" | i where "a = Task i" | "\<And>now. a \<noteq> Sched now" "\<And>i. a \<noteq> Task i" by blast
  then show ?thesis
  proof cases
    case 2
    with assms(1) exec_task [of P i c c'] show ?thesis by (cases "i < length (begun c)") auto
  next
    case 3
    with listeners_tasks [OF assms(1)] assms(2) show ?thesis by auto
  qed (use assms(1) in \<open>auto simp: go_simps\<close>)
qed

text \<open>A started goroutine stays in its place, moves up, or begins to run.\<close>

lemma started_moves:
  assumes "world_ok (c_world c)" "exec P a c = Ok c'" "k \<in> start_name ` set (begun c)"
    and "k \<notin> task_name ` set (c_running c')"
  shows "k \<in> start_name ` set (begun c')
    \<and> before (\<lambda>_. 1) start_name k (begun c') \<le> before (\<lambda>_. 1) start_name k (begun c)
    \<and> (a = Task 0 \<longrightarrow> before (\<lambda>_. 1) start_name k (begun c') < before (\<lambda>_. 1) start_name k (begun c))"
proof (cases "\<exists>i < length (begun c). a = Task i")
  case True
  then obtain i where i: "i < length (begun c)" "a = Task i" by blast
  from exec_task [OF assms(2) [unfolded i(2)] i(1)] assms(4) have
    "begun c' = without i (begun c)" "start_name (begun c ! i) \<noteq> k" by auto
  with named_without [OF i(1) assms(3)] before_without [of "\<lambda>_. 1" i "begun c" start_name k] i show ?thesis by auto
next
  case False
  have "begun c \<noteq> []" using assms(3) by auto
  with False have "a \<noteq> Task 0" by auto
  moreover obtain us where "begun c' = begun c @ us"
  proof (cases "\<exists>i. a = Task i")
    case True
    then obtain i where i: "a = Task i" by blast
    with False have "\<not> i < length (begun c)" by blast
    with i assms(2) have "begun c' = begun c @ []" by simp
    then show ?thesis by (rule that)
  next
    case False
    with started_other [OF assms(1,2)] that show ?thesis by blast
  qed
  ultimately show ?thesis using assms(3) before_append [OF assms(3)] by auto
qed

text \<open>A running goroutine stays, with fewer steps left where it or one before it takes one, or its unit settles.\<close>

lemma running_moves:
  assumes "world_ok (c_world c)" "exec P a c = Ok c'" "k \<in> task_name ` set (c_running c)" "\<not> settles P k c a c'"
  shows "k \<in> task_name ` set (c_running c')
    \<and> before steps_left task_name k (c_running c') \<le> before steps_left task_name k (c_running c)
    \<and> ((\<exists>now. a = Running 0 now) \<longrightarrow> before steps_left task_name k (c_running c') < before steps_left task_name k (c_running c))"
proof (cases "\<exists>i now. i < length (c_running c) \<and> a = Running i now")
  case True
  then obtain i now where i: "i < length (c_running c)" "a = Running i now" by blast
  obtain r where r: "task_step (p_sched P) now (c_running c ! i) (c_world c) = Ok (c_world c', r)"
    "c_running c' = (case r of None \<Rightarrow> without i (c_running c) | Some t \<Rightarrow> (c_running c)[i := t])"
    using exec_running [OF assms(2) [unfolded i(2)] i(1)] by blast
  show ?thesis
  proof (cases r)
    case None
    with task_step_present [OF assms(1) r(1)] assms(4) i have "task_name (c_running c ! i) \<noteq> k"
      by (auto simp: settles_def)
    with named_without [OF i(1) assms(3)] before_without [OF steps_left_pos i(1)] None r(2) i show ?thesis by simp
  next
    case (Some t)
    note t = task_step_left [OF r(1) [unfolded Some]]
    from named_update [OF i(1), of task_name t] before_update [OF i(1), of task_name t steps_left k] t Some r(2) i assms(3)
    show ?thesis by simp
  qed
next
  case False
  have "c_running c \<noteq> []" using assms(3) by auto
  with False have "\<not> (\<exists>now. a = Running 0 now)" by auto
  moreover obtain us where "c_running c' = c_running c @ us"
  proof (cases "\<exists>i now. a = Running i now")
    case True
    then obtain i now where i: "a = Running i now" by blast
    with False have "\<not> i < length (c_running c)" by blast
    with i assms(2) have "c_running c' = c_running c @ []" by simp
    then show ?thesis by (rule that)
  next
    case False
    with running_other [OF assms(2)] that show ?thesis by blast
  qed
  ultimately show ?thesis using assms(3) before_append [OF assms(3)] by auto
qed

section \<open>In a run\<close>

text \<open>Of the goroutines that wait to begin and of those that have begun, the oldest gets to run again and again.\<close>

definition goroutines_run :: "(nat \<Rightarrow> ('q, 'w) action) \<Rightarrow> bool" where
  "goroutines_run act \<longleftrightarrow> (\<forall>m. \<exists>n\<ge>m. act n = Task 0) \<and> (\<forall>m. \<exists>n\<ge>m. \<exists>now. act n = Running 0 now)"

definition settled ::
  "('q, 's, 'hd, 'w) program \<Rightarrow> string \<Rightarrow> (nat \<Rightarrow> ('q, 'w) action) \<Rightarrow> (nat \<Rightarrow> ('q, 's, 'hd, 'w) config) \<Rightarrow> nat \<Rightarrow> bool" where
  "settled P k act conf n \<longleftrightarrow> settles P k (conf n) (act n) (conf (Suc n))"

lemma hand_settles:
  assumes "is_run P c0 act conf" "scheduler_runs act" "\<And>n. world_ok (c_world (conf n))" "k \<in> hand (c_sched (conf m))"
  shows "\<exists>n\<ge>m. settled P k act conf n \<or> k \<in> start_name ` set (begun (conf (Suc n)))"
proof (rule leads_to [OF wf_lower, where x = "\<lambda>n. c_sched (conf n)" and I = "\<lambda>n. k \<in> hand (c_sched (conf n))"
      and S = "\<lambda>n. \<exists>now. act n = Sched now"])
  show "\<exists>n\<ge>m. \<exists>now. act n = Sched now" for m using assms(2) by (simp add: scheduler_runs_def)
  fix n assume n: "k \<in> hand (c_sched (conf n))"
    "\<not> (settled P k act conf n \<or> k \<in> start_name ` set (begun (conf (Suc n))))"
  have ex: "exec P (act n) (conf n) = Ok (conf (Suc n))" using assms(1) by (simp add: is_run_def)
  show "k \<in> hand (c_sched (conf (Suc n))) \<and> ((c_sched (conf (Suc n)), c_sched (conf n)) \<in> lower
      \<or> \<not> (\<exists>now. act n = Sched now) \<and> c_sched (conf (Suc n)) = c_sched (conf n))"
  proof (cases "\<exists>now. act n = Sched now")
    case True
    then obtain now where now: "act n = Sched now" by blast
    from sched_hand [OF assms(3) ex [unfolded now] n(1)] n(2) now have "k \<in> hand (c_sched (conf (Suc n)))"
      by (auto simp: settled_def)
    moreover have "c_sched (conf n) \<noteq> Idle" using n(1) by auto
    ultimately show ?thesis using sched_step_lower [OF exec_sched [OF ex [unfolded now]]] by blast
  next
    case False
    with exec_other [OF ex] n(1) show ?thesis by auto
  qed
qed (rule assms(4))

lemma started_begins:
  assumes "is_run P c0 act conf" "goroutines_run act" "\<And>n. world_ok (c_world (conf n))"
    and "k \<in> start_name ` set (begun (conf m))"
  shows "\<exists>n\<ge>m. k \<in> task_name ` set (c_running (conf (Suc n)))"
proof (rule leads_to [OF wf_less_than, where x = "\<lambda>n. before (\<lambda>_. 1) start_name k (begun (conf n))"
      and I = "\<lambda>n. k \<in> start_name ` set (begun (conf n))" and S = "\<lambda>n. act n = Task 0"])
  show "\<exists>n\<ge>m. act n = Task 0" for m using assms(2) by (simp add: goroutines_run_def)
  fix n assume n: "k \<in> start_name ` set (begun (conf n))" "k \<notin> task_name ` set (c_running (conf (Suc n)))"
  have "exec P (act n) (conf n) = Ok (conf (Suc n))" using assms(1) by (simp add: is_run_def)
  from started_moves [OF assms(3) this n] show "k \<in> start_name ` set (begun (conf (Suc n)))
    \<and> ((before (\<lambda>_. 1) start_name k (begun (conf (Suc n))), before (\<lambda>_. 1) start_name k (begun (conf n))) \<in> less_than
      \<or> act n \<noteq> Task 0 \<and> before (\<lambda>_. 1) start_name k (begun (conf (Suc n))) = before (\<lambda>_. 1) start_name k (begun (conf n)))"
    by auto
qed (rule assms(4))

lemma running_settles:
  assumes "is_run P c0 act conf" "goroutines_run act" "\<And>n. world_ok (c_world (conf n))"
    and "k \<in> task_name ` set (c_running (conf m))"
  shows "\<exists>n\<ge>m. settled P k act conf n"
proof (rule leads_to [OF wf_less_than, where x = "\<lambda>n. before steps_left task_name k (c_running (conf n))"
      and I = "\<lambda>n. k \<in> task_name ` set (c_running (conf n))" and S = "\<lambda>n. \<exists>now. act n = Running 0 now"])
  show "\<exists>n\<ge>m. \<exists>now. act n = Running 0 now" for m using assms(2) by (simp add: goroutines_run_def)
  fix n assume n: "k \<in> task_name ` set (c_running (conf n))" "\<not> settled P k act conf n"
  have "exec P (act n) (conf n) = Ok (conf (Suc n))" using assms(1) by (simp add: is_run_def)
  from running_moves [OF assms(3) this n [unfolded settled_def]] show "k \<in> task_name ` set (c_running (conf (Suc n)))
    \<and> ((before steps_left task_name k (c_running (conf (Suc n))), before steps_left task_name k (c_running (conf n))) \<in> less_than
      \<or> \<not> (\<exists>now. act n = Running 0 now)
        \<and> before steps_left task_name k (c_running (conf (Suc n))) = before steps_left task_name k (c_running (conf n)))"
    by auto
qed (rule assms(4))

lemma in_flight_settles:
  assumes "is_run P c0 act conf" "scheduler_runs act" "goroutines_run act" "\<And>n. world_ok (c_world (conf n))"
    and "k \<in> hand (c_sched (conf m)) \<union> start_name ` set (begun (conf m)) \<union> task_name ` set (c_running (conf m))"
  shows "\<exists>n\<ge>m. settled P k act conf n"
proof -
  have running: "\<exists>n\<ge>m. settled P k act conf n" if "k \<in> task_name ` set (c_running (conf m))" for m
    by (rule running_settles [OF assms(1,3,4) that])
  have started: "\<exists>n\<ge>m. settled P k act conf n" if "k \<in> start_name ` set (begun (conf m))" for m
    using started_begins [OF assms(1,3,4) that] running by (meson le_SucI le_trans)
  have "\<exists>n\<ge>m. settled P k act conf n" if "k \<in> hand (c_sched (conf m))"
    using hand_settles [OF assms(1,2,4) that] started by (meson le_SucI le_trans)
  with running [of m] started [of m] assms(5) show ?thesis by blast
qed

section \<open>No unit is stuck\<close>

text \<open>C10. Liveness under fairness, over the whole life of a unit outside its queue: in every infinite run of
  the program in which the scheduler's goroutine and the oldest started goroutine get to run again
  and again, whatever the other goroutines, the informers and the server do, each unit that the
  scheduler has in its hands or that a goroutine is to dequeue comes to an end of that: the server
  accepts the update that marks it as dequeued, or \<open>ErrorFunc\<close> cannot read it and drops it, or it is
  in a queue again.\<close>

theorem units_settle:
  assumes "NewController ks (NewInTreeRegistry Q ord lister) handle s0 client w i mx = Ok (sch, W)"
    and "is_range ks (NewInTreeRegistry Q ord lister)" "runtime_ok rng srt dispatch client"
    and "is_run (program_of Q ord rng srt dispatch sch) (start_config W) act conf" "scheduler_runs act" "goroutines_run act"
    and "k \<in> hand (c_sched (conf m)) \<union> (info_Name \<circ> fst) ` set (tasks (c_world (conf m)))
      \<union> task_name ` set (c_running (conf m))"
  shows "\<exists>n\<ge>m. k \<in> leaves (program_of Q ord rng srt dispatch sch) (conf n) (act n)
    \<or> k \<in> queue_keys (objects (c_world (conf (Suc n))))"
proof -
  note P = started_ok [OF assms(1-3)]
  have "config_ok (conf n)" for n using reachable_ok [OF P(2) run_reachable [OF assms(4)] P(1)] .
  then have "world_ok (c_world (conf n))" for n by (rule config_okD(2))
  from in_flight_settles [OF assms(4-6) this assms(7)] show ?thesis by (simp add: settled_def settles_def)
qed

theorem units_settle_witness:
  "\<exists>n\<ge>11. ''a/j'' \<in> leaves sample_program (sample_run n) (sample_act n)
    \<or> ''a/j'' \<in> queue_keys (objects (c_world (sample_run (Suc n))))"
proof -
  have "m \<le> 3 * m + 15 \<and> sample_act (3 * m + 15) = Sched 5" "m \<le> 3 * m + 16 \<and> sample_act (3 * m + 16) = Task 0"
    "m \<le> 3 * m + 17 \<and> sample_act (3 * m + 17) = Running 0 5" for m using sample_act_later by simp_all
  then have fair: "scheduler_runs sample_act" "goroutines_run sample_act"
    unfolding scheduler_runs_def goroutines_run_def by blast+
  have "tasks (c_world (sample_run 11)) = [(NewQueueUnitInfo 1 1 job, 0)]"
    unfolding sample_run_at_reserved by (simp add: reserved_config_def start_config_def)
  moreover have "info_Name (NewQueueUnitInfo 1 1 job) = ''a/j''"
    by (simp add: NewQueueUnitInfo_def unit_key_def job_def sample_defs)
  ultimately have "''a/j'' \<in> (info_Name \<circ> fst) ` set (tasks (c_world (sample_run 11)))" by simp
  then show ?thesis
    using units_settle [OF sample_controller sample_range sample_runtime sample_run_ok(1) fair, where m = 11] by blast
qed

end
