(* ===== verification/Options.thy ===== *)
theory Options
  imports Framework_Types
begin

text \<open>
  The model of \<^verbatim>\<open>cmd/app/options/options.go\<close>: the record of options, its zero value and the
  flags that set it. The flags are parsed by the standard library, which is modelled as far as these
  flags use it: \<^verbatim>\<open>flag.FlagSet\<close> with string and int variables (\<open>parse_flags\<close>) and
  \<^verbatim>\<open>strconv.ParseInt\<close> with base 0 and 64 bits (\<open>ParseInt\<close>), with prefixes for the base and
  underscores between digits. The command line exits on every error.
\<close>

section \<open>Options and flags\<close>

record ServerOption =
  KubeConfig :: string
  QPS :: int64
  Burst :: int64
  PodInitialBackoffSeconds :: int64
  PodMaxBackoffSeconds :: int64

definition NewServerOption :: ServerOption where
  "NewServerOption =
     \<lparr>KubeConfig = '''', QPS = 0, Burst = 0, PodInitialBackoffSeconds = 0, PodMaxBackoffSeconds = 0\<rparr>"

text \<open>A flag holds a pointer to its variable; here it is the function that sets the field.\<close>

datatype flag_value =
    StringValue "string \<Rightarrow> ServerOption \<Rightarrow> ServerOption" | IntValue "int64 \<Rightarrow> ServerOption \<Rightarrow> ServerOption"

type_synonym FlagSet = "string \<rightharpoonup> flag_value"

text \<open>Registering a flag stores the default in the variable.\<close>

definition StringVar ::
  "(string \<Rightarrow> ServerOption \<Rightarrow> ServerOption) \<Rightarrow> string \<Rightarrow> string \<Rightarrow> ServerOption \<times> FlagSet \<Rightarrow> ServerOption \<times> FlagSet" where
  "StringVar set_var name dflt = (\<lambda>(s, fs). (set_var dflt s, fs(name \<mapsto> StringValue set_var)))"

definition IntVar ::
  "(int64 \<Rightarrow> ServerOption \<Rightarrow> ServerOption) \<Rightarrow> string \<Rightarrow> int64 \<Rightarrow> ServerOption \<times> FlagSet \<Rightarrow> ServerOption \<times> FlagSet" where
  "IntVar set_var name dflt = (\<lambda>(s, fs). (set_var dflt s, fs(name \<mapsto> IntValue set_var)))"

definition AddFlags :: "ServerOption \<Rightarrow> FlagSet \<Rightarrow> ServerOption \<times> FlagSet" where
  "AddFlags s fs =
     (let x1 = StringVar (\<lambda>v s. s\<lparr>KubeConfig := v\<rparr>) ''kubeconfig'' '''' (s, fs);
          x2 = IntVar (\<lambda>v s. s\<lparr>QPS := v\<rparr>) ''qps'' 5 x1;
          x3 = IntVar (\<lambda>v s. s\<lparr>Burst := v\<rparr>) ''burst'' 10 x2;
          x4 = IntVar (\<lambda>v s. s\<lparr>PodInitialBackoffSeconds := v\<rparr>) ''podInitialBackoffSeconds'' 1 x3
      in IntVar (\<lambda>v s. s\<lparr>PodMaxBackoffSeconds := v\<rparr>) ''podMaxBackoffSeconds'' 20 x4)"

section \<open>Integers: strconv.ParseInt(s, 0, 64)\<close>

text \<open>Bytes as numbers; \<^verbatim>\<open>lower(c)\<close> sets bit 5.\<close>

definition byte :: "char \<Rightarrow> nat" where
  "byte c = of_char c"

definition lower :: "char \<Rightarrow> nat" where
  "lower c = (if (byte c div 32) mod 2 = 1 then byte c else byte c + 32)"

definition is_digit :: "char \<Rightarrow> bool" where
  "is_digit c \<longleftrightarrow> 48 \<le> byte c \<and> byte c \<le> 57"

definition digit_value :: "char \<Rightarrow> nat option" where
  "digit_value c =
     (if is_digit c then Some (byte c - 48)
      else if 97 \<le> lower c \<and> lower c \<le> 122 then Some (lower c - 97 + 10)
      else None)"

fun digits_loop :: "nat \<Rightarrow> string \<Rightarrow> nat \<Rightarrow> nat option" where
  "digits_loop base [] n = Some n"
| "digits_loop base (c # cs) n =
     (if c = CHR ''_'' then digits_loop base cs n
      else case digit_value c of
        None \<Rightarrow> None
      | Some d \<Rightarrow> if base \<le> d then None else digits_loop base cs (n * base + d))"

text \<open>The prefix of a number: its base and its digits.\<close>

definition base_prefix :: "string \<Rightarrow> nat \<times> string" where
  "base_prefix s =
     (case s of
        c # cs \<Rightarrow>
          if c \<noteq> CHR ''0'' then (10, s)
          else if 3 \<le> length s \<and> lower (hd cs) = 98 then (2, tl cs)
          else if 3 \<le> length s \<and> lower (hd cs) = 111 then (8, tl cs)
          else if 3 \<le> length s \<and> lower (hd cs) = 120 then (16, tl cs)
          else (8, cs)
      | [] \<Rightarrow> (10, s))"

text \<open>\<^verbatim>\<open>underscoreOK\<close>: underscores only between digits or after the prefix.\<close>

datatype seen = SeenNothing | SeenDigit | SeenUnderscore | SeenOther

fun underscore_loop :: "bool \<Rightarrow> seen \<Rightarrow> string \<Rightarrow> bool" where
  "underscore_loop hex saw [] = (saw \<noteq> SeenUnderscore)"
| "underscore_loop hex saw (c # cs) =
     (if is_digit c \<or> hex \<and> 97 \<le> lower c \<and> lower c \<le> 102 then underscore_loop hex SeenDigit cs
      else if c = CHR ''_'' then (if saw \<noteq> SeenDigit then False else underscore_loop hex SeenUnderscore cs)
      else if saw = SeenUnderscore then False
      else underscore_loop hex SeenOther cs)"

definition underscoreOK :: "string \<Rightarrow> bool" where
  "underscoreOK s =
     (if 2 \<le> length s \<and> hd s = CHR ''0'' \<and> lower (s ! 1) \<in> {98, 111, 120}
      then underscore_loop (lower (s ! 1) = 120) SeenDigit (drop 2 s)
      else underscore_loop False SeenNothing s)"

definition ParseUint :: "string \<Rightarrow> nat option" where
  "ParseUint s =
     (if s = [] then None
      else case base_prefix s of (base, ds) \<Rightarrow>
        (case digits_loop base ds 0 of
           None \<Rightarrow> None
         | Some n \<Rightarrow>
             if 2 ^ 64 \<le> n then None
             else if CHR ''_'' \<in> set ds \<and> \<not> underscoreOK s then None
             else Some n))"

definition ParseInt :: "string \<Rightarrow> int64 option" where
  "ParseInt s =
     (if s = [] then None
      else
        let neg = (hd s = CHR ''-'');
            u = (if hd s = CHR ''+'' \<or> neg then tl s else s)
        in case ParseUint u of
             None \<Rightarrow> None
           | Some un \<Rightarrow>
               if \<not> neg \<and> 2 ^ 63 \<le> un then None
               else if neg \<and> 2 ^ 63 < un then None
               else Some (word_of_int (if neg then - int un else int un)))"

section \<open>Flags: FlagSet.Parse\<close>

text \<open>The name and the value after the first equals sign, which cannot be the first character.\<close>

definition split_value :: "string \<Rightarrow> string \<times> string option" where
  "split_value name =
     (let rest = dropWhile (\<lambda>c. c \<noteq> CHR ''='') (tl name) in
      if rest = [] then (name, None)
      else (hd name # takeWhile (\<lambda>c. c \<noteq> CHR ''='') (tl name), Some (tl rest)))"

definition set_flag :: "flag_value \<Rightarrow> string \<Rightarrow> ServerOption \<Rightarrow> ServerOption go" where
  "set_flag f value s =
     (case f of
        StringValue set_var \<Rightarrow> Ok (set_var value s)
      | IntValue set_var \<Rightarrow>
          (case ParseInt value of None \<Rightarrow> Panic ProcessExit | Some n \<Rightarrow> Ok (set_var n s)))"

text \<open>The loop of \<^verbatim>\<open>Parse\<close>: the first argument that is not a flag ends it, an error the process.\<close>

fun parse_flags :: "FlagSet \<Rightarrow> string list \<Rightarrow> ServerOption \<Rightarrow> ServerOption go" where
  "parse_flags fs [] s = Ok s"
| "parse_flags fs (a # args) s =
     (if length a < 2 \<or> hd a \<noteq> CHR ''-'' then Ok s
      else if a = ''--'' then Ok s
      else
        let name = (if a ! 1 = CHR ''-'' then drop 2 a else drop 1 a) in
        if name = [] \<or> hd name = CHR ''-'' \<or> hd name = CHR ''='' then Panic ProcessExit
        else case split_value name of (n, value) \<Rightarrow>
          (case fs n of
             None \<Rightarrow> Panic ProcessExit
           | Some f \<Rightarrow>
               (case value of
                  Some v \<Rightarrow> go_bind (set_flag f v s) (parse_flags fs args)
                | None \<Rightarrow>
                    (case args of
                       [] \<Rightarrow> Panic ProcessExit
                     | v # args' \<Rightarrow> go_bind (set_flag f v s) (parse_flags fs args')))))"

section \<open>Printing and parsing\<close>

lemma digits_loop_append:
  "digits_loop b (xs @ ys) n = (case digits_loop b xs n of None \<Rightarrow> None | Some m \<Rightarrow> digits_loop b ys m)"
  by (induction b xs n rule: digits_loop.induct) (auto split: option.splits)

lemma decimal_digit:
  assumes "d < 10"
  shows "digit_value (char_of (48 + d)) = Some d" "is_digit (char_of (48 + d))" "char_of (48 + d) \<noteq> CHR ''_''"
    "char_of (48 + d) = CHR ''0'' \<longleftrightarrow> d = 0"
proof -
  have b: "byte (char_of (48 + d)) = 48 + d" using assms by (simp add: byte_def)
  show dig: "is_digit (char_of (48 + d))" using assms b by (simp add: is_digit_def)
  then show "digit_value (char_of (48 + d)) = Some d" using b by (simp add: digit_value_def)
  have "byte (CHR ''_'') = 95" "byte (CHR ''0'') = 48" by (simp_all add: byte_def)
  then show "char_of (48 + d) \<noteq> CHR ''_''" using assms b by fastforce
  show "char_of (48 + d) = CHR ''0'' \<longleftrightarrow> d = 0"
    using b \<open>byte (CHR ''0'') = 48\<close> by (metis add_cancel_left_right byte_def char_of_char)
qed

lemma nat_digits_ne [simp]: "nat_digits n \<noteq> []"
  by (subst nat_digits.simps) simp

lemma nat_digits_digits: "c \<in> set (nat_digits n) \<Longrightarrow> is_digit c \<and> c \<noteq> CHR ''_''"
proof (induction n rule: nat_digits.induct)
  case (1 n)
  then show ?case by (subst (asm) (2) nat_digits.simps) (auto simp: decimal_digit split: if_splits)
qed

lemma nat_digits_value: "digits_loop 10 (nat_digits n) 0 = Some n"
proof (induction n rule: nat_digits.induct)
  case (1 n)
  have "\<not> 10 \<le> n mod 10" by (simp add: not_le)
  with 1 show ?case by (subst nat_digits.simps) (simp add: digits_loop_append decimal_digit)
qed

lemma nat_digits_hd: "0 < n \<Longrightarrow> hd (nat_digits n) \<noteq> CHR ''0''"
proof (induction n rule: nat_digits.induct)
  case (1 n)
  then show ?case by (subst nat_digits.simps) (simp add: decimal_digit)
qed

lemma ParseUint_digits:
  assumes "n < 2 ^ 64"
  shows "ParseUint (nat_digits n) = Some n"
proof (cases "n = 0")
  case True
  then have "nat_digits n = ''0''" using decimal_digit(4) [of 0] by (subst nat_digits.simps) simp
  with True show ?thesis by (simp add: ParseUint_def base_prefix_def)
next
  case False
  obtain c cs where cs: "nat_digits n = c # cs" by (cases "nat_digits n") auto
  with nat_digits_hd [of n] False have "base_prefix (nat_digits n) = (10, nat_digits n)"
    by (simp add: base_prefix_def)
  with assms nat_digits_value [of n] nat_digits_digits [of _ n] show ?thesis
    by (auto simp: ParseUint_def)
qed

lemma ParseInt_itoa: "ParseInt (itoa (sint w)) = Some w"
proof -
  have bounds: "- (2 ^ 63) \<le> sint w" "sint w < 2 ^ 63" using sint64_ge_min [of w] sint64_less_max [of w] by simp_all
  have sign: "hd (nat_digits n) \<noteq> CHR ''-''" "hd (nat_digits n) \<noteq> CHR ''+''" for n
    using nat_digits_digits [of "hd (nat_digits n)" n] by (auto simp: is_digit_def byte_def)
  show ?thesis
  proof (cases "sint w < 0")
    case True
    with bounds have "ParseUint (nat_digits (nat (- sint w))) = Some (nat (- sint w))"
      by (intro ParseUint_digits) simp
    with True bounds show ?thesis by (simp add: ParseInt_def itoa_def)
  next
    case False
    with bounds have "ParseUint (nat_digits (nat (sint w))) = Some (nat (sint w))"
      by (intro ParseUint_digits) simp
    with False bounds sign show ?thesis by (simp add: ParseInt_def itoa_def)
  qed
qed

section \<open>Parsing a command line\<close>

lemma split_value_assign:
  assumes "name \<noteq> []" "CHR ''='' \<notin> set name"
  shows "split_value (name @ CHR ''='' # v) = (name, Some v)"
proof -
  obtain c cs where c: "name = c # cs" using assms(1) by (cases name) auto
  with assms(2) have "\<And>x. x \<in> set cs \<Longrightarrow> x \<noteq> CHR ''=''" by auto
  with c show ?thesis by (simp add: split_value_def takeWhile_append2 dropWhile_append2)
qed

text \<open>An argument \<^verbatim>\<open>-name=value\<close> sets the flag.\<close>

lemma parse_assign:
  assumes "name \<noteq> []" "CHR ''='' \<notin> set name" "hd name \<noteq> CHR ''-''" "fs name = Some f"
  shows "parse_flags fs ((CHR ''-'' # name @ CHR ''='' # v) # args) s = go_bind (set_flag f v s) (parse_flags fs args)"
proof -
  obtain c cs where c: "name = c # cs" "c \<noteq> CHR ''-''" "c \<noteq> CHR ''=''" using assms(1-3) by (cases name) auto
  then show ?thesis using split_value_assign [OF assms(1,2), of v] assms(4) by simp
qed

text \<open>The command line that gives every option.\<close>

definition option_args :: "ServerOption \<Rightarrow> string list" where
  "option_args s =
     [''-kubeconfig='' @ KubeConfig s, ''-qps='' @ itoa (sint (QPS s)), ''-burst='' @ itoa (sint (Burst s)),
      ''-podInitialBackoffSeconds='' @ itoa (sint (PodInitialBackoffSeconds s)),
      ''-podMaxBackoffSeconds='' @ itoa (sint (PodMaxBackoffSeconds s))]"

text \<open>C22. Round trip: the flags read back any options written as a command line, whatever the path and the
  64-bit values are, and with no arguments the options are the documented defaults.\<close>

theorem options_roundtrip:
  "(case AddFlags NewServerOption Map.empty of (s, fs) \<Rightarrow> parse_flags fs (option_args opt) s) = Ok opt
   \<and> (case AddFlags NewServerOption Map.empty of (s, fs) \<Rightarrow> parse_flags fs [] s) =
       Ok \<lparr>KubeConfig = '''', QPS = 5, Burst = 10, PodInitialBackoffSeconds = 1, PodMaxBackoffSeconds = 20\<rparr>"
proof -
  have args: "''-kubeconfig='' @ v = CHR ''-'' # ''kubeconfig'' @ CHR ''='' # v"
    "''-qps='' @ v = CHR ''-'' # ''qps'' @ CHR ''='' # v" "''-burst='' @ v = CHR ''-'' # ''burst'' @ CHR ''='' # v"
    "''-podInitialBackoffSeconds='' @ v = CHR ''-'' # ''podInitialBackoffSeconds'' @ CHR ''='' # v"
    "''-podMaxBackoffSeconds='' @ v = CHR ''-'' # ''podMaxBackoffSeconds'' @ CHR ''='' # v" for v
    by simp_all
  show ?thesis
    by (simp only: option_args_def args)
      (simp add: AddFlags_def StringVar_def IntVar_def NewServerOption_def Let_def parse_assign set_flag_def
        ParseInt_itoa del: parse_flags.simps(2) append.simps)
qed

end
