(* ===== verification/Server.thy ===== *)
theory Server
  imports Options System_Props
begin

text \<open>
  The model of \<^verbatim>\<open>cmd/app/server/server.go\<close> and \<^verbatim>\<open>cmd/main.go\<close>: from the command line and
  the environment to the world the goroutines start in. The constructors of clients and informers
  belong to client-go and to the generated clientset: they are the fields of record \<open>platform\<close>.
  \<^verbatim>\<open>BuildConfigFromFlags\<close> reads a file, so its result may differ between its two calls, whose
  number is an argument. \<^verbatim>\<open>controller.Start\<close> never returns: the result of \<open>Run\<close> is the error it
  returns or the scheduler and the world of the running program.
\<close>

section \<open>Run and main\<close>

text \<open>The two fields of a client configuration that \<^verbatim>\<open>Run\<close> sets; \<open>'f\<close> is \<^verbatim>\<open>float32\<close>, \<open>'c\<close> the rest.\<close>

record ('f, 'c) Config =
  cfg_QPS :: 'f
  cfg_Burst :: int64
  cfg_rest :: 'c

record ('f, 'c, 'kc, 'i, 'q, 'w) platform =
  float32 :: "int64 \<Rightarrow> 'f"
  BuildConfigFromFlags :: "nat \<Rightarrow> string \<Rightarrow> string \<Rightarrow> string + ('f, 'c) Config"
  kubernetes_NewForConfig :: "('f, 'c) Config \<Rightarrow> string + 'kc"
  versioned_NewForConfig :: "('f, 'c) Config \<Rightarrow> string + ('q, 'w) QueueClient"
  NewSharedInformerFactory :: "'kc \<Rightarrow> 'i"

definition set_limits :: "('f, 'c, 'kc, 'i, 'q, 'w) platform \<Rightarrow> ServerOption \<Rightarrow> ('f, 'c) Config \<Rightarrow> ('f, 'c) Config" where
  "set_limits plat opt cfg = cfg\<lparr>cfg_QPS := float32 plat (QPS opt), cfg_Burst := Burst opt\<rparr>"

text \<open>\<open>env\<close> is the variable \<^verbatim>\<open>KUBECONFIG\<close>; the other arguments are those of \<open>NewController\<close>.\<close>

definition Run ::
  "('f, 'c, 'kc, 'i, 'q, 'w) platform \<Rightarrow> string \<Rightarrow> string list
   \<Rightarrow> ('q, 's, ('i, ('q, 'w) QueueClient) Handle) Registry \<Rightarrow> 's \<Rightarrow> 'w \<Rightarrow> ServerOption
   \<Rightarrow> (string + ('q, 's, ('i, ('q, 'w) QueueClient) Handle, 'w) Scheduler
                \<times> ('q, 's, ('i, ('q, 'w) QueueClient) Handle, 'w) world) go" where
  "Run plat env ks r s0 w opt0 =
     (let opt = (if 0 < length env then opt0\<lparr>KubeConfig := env\<rparr> else opt0) in
      case BuildConfigFromFlags plat 0 '''' (KubeConfig opt) of
        Inl err \<Rightarrow> Panic ProcessExit
      | Inr cfg \<Rightarrow>
          (case kubernetes_NewForConfig plat (set_limits plat opt cfg) of
             Inl err \<Rightarrow> Panic ProcessExit
           | Inr kubeClient \<Rightarrow>
               (case BuildConfigFromFlags plat 1 '''' (KubeConfig opt) of
                  Inl err \<Rightarrow> Ok (Inl err)
                | Inr restConfig \<Rightarrow>
                    (case versioned_NewForConfig plat (set_limits plat opt restConfig) of
                       Inl err \<Rightarrow> Ok (Inl err)
                     | Inr queueUnitClient \<Rightarrow>
                         go_bind (NewController ks r
                             \<lparr>KubeConfigPath = KubeConfig opt,
                              SharedInformerFactory = NewSharedInformerFactory plat kubeClient,
                              QueueUnitClient = queueUnitClient\<rparr>
                             s0 queueUnitClient w (PodInitialBackoffSeconds opt) (PodMaxBackoffSeconds opt))
                           (\<lambda>running. Ok (Inr running))))))"

definition main_options :: "string list \<Rightarrow> ServerOption go" where
  "main_options args = (case AddFlags NewServerOption Map.empty of (s, fs) \<Rightarrow> parse_flags fs args s)"

definition main ::
  "('f, 'c, 'kc, 'i, 'q, 'w) platform \<Rightarrow> string \<Rightarrow> string list \<Rightarrow> string list
   \<Rightarrow> ('q, 's, ('i, ('q, 'w) QueueClient) Handle) Registry \<Rightarrow> 's \<Rightarrow> 'w
   \<Rightarrow> (('q, 's, ('i, ('q, 'w) QueueClient) Handle, 'w) Scheduler
       \<times> ('q, 's, ('i, ('q, 'w) QueueClient) Handle, 'w) world) go" where
  "main plat env args ks r s0 w =
     go_bind (main_options args) (\<lambda>s.
     go_bind (Run plat env ks r s0 w s) (\<lambda>res.
       case res of Inl err \<Rightarrow> Panic ProcessExit | Inr running \<Rightarrow> Ok running))"

section \<open>The outcome of main\<close>

lemma set_flag_exit: "set_flag f v s = Panic e \<Longrightarrow> e = ProcessExit"
  by (auto simp: set_flag_def split: flag_value.splits option.splits)

lemma parse_flags_exit: "parse_flags fs args s = Panic e \<Longrightarrow> e = ProcessExit"
  by (induction fs args s rule: parse_flags.induct)
    (auto simp: go_simps Let_def dest: set_flag_exit split: if_splits option.splits list.splits prod.splits)

lemma Run_cases:
  obtains (exit) "Run plat env ks r s0 w opt = Panic ProcessExit"
  | (err) err where "Run plat env ks r s0 w opt = Ok (Inl err)"
  | (running) handle client where "Run plat env ks r s0 w opt =
      go_bind (NewController ks r handle s0 client w (PodInitialBackoffSeconds opt) (PodMaxBackoffSeconds opt))
        (\<lambda>running. Ok (Inr running))"
proof -
  define o1 where "o1 = (if 0 < length env then opt\<lparr>KubeConfig := env\<rparr> else opt)"
  have same: "PodInitialBackoffSeconds o1 = PodInitialBackoffSeconds opt" "PodMaxBackoffSeconds o1 = PodMaxBackoffSeconds opt"
    by (simp_all add: o1_def)
  have "Run plat env ks r s0 w opt = Panic ProcessExit \<or> (\<exists>err. Run plat env ks r s0 w opt = Ok (Inl err))
    \<or> (\<exists>handle client. Run plat env ks r s0 w opt =
         go_bind (NewController ks r handle s0 client w (PodInitialBackoffSeconds opt) (PodMaxBackoffSeconds opt))
           (\<lambda>running. Ok (Inr running)))"
    unfolding Run_def Let_def o1_def [symmetric] same by (simp split: sum.split) blast
  with exit err running show thesis by blast
qed

lemma main_cases:
  assumes "is_range ks (NewInTreeRegistry Q ord lister)"
  obtains (exit) "main plat env args ks (NewInTreeRegistry Q ord lister) s0 w = Panic ProcessExit"
  | (starts) opt handle client sch W where "main_options args = Ok opt"
      "NewController ks (NewInTreeRegistry Q ord lister) handle s0 client w
         (PodInitialBackoffSeconds opt) (PodMaxBackoffSeconds opt) = Ok (sch, W)"
      "main plat env args ks (NewInTreeRegistry Q ord lister) s0 w = Ok (sch, W)"
proof (cases "main_options args")
  case (Ok opt)
  show thesis
  proof (cases rule: Run_cases [of plat env ks "NewInTreeRegistry Q ord lister" s0 w opt])
    case (running handle client)
    then show ?thesis
      using Ok new_controller_in_tree [OF assms, of handle s0 client w] by (intro starts) (simp_all add: main_def)
  qed (use Ok exit in \<open>simp_all add: main_def\<close>)
next
  case (Panic e)
  then have "e = ProcessExit" using parse_flags_exit by (auto simp: main_options_def split: prod.splits)
  with Panic show thesis by (intro exit) (simp add: main_def)
qed


abbreviation sample_platform :: "(int64, unit, unit, unit, int, unit) platform" where
  "sample_platform \<equiv> \<lparr>float32 = id, BuildConfigFromFlags = (\<lambda>_ _ _. Inr \<lparr>cfg_QPS = 0, cfg_Burst = 0, cfg_rest = ()\<rparr>),
     kubernetes_NewForConfig = (\<lambda>_. Inr ()), versioned_NewForConfig = (\<lambda>_. Inr job_client),
     NewSharedInformerFactory = id\<rparr>"

abbreviation server_registry :: "(int, int ResourceQuota, (unit, (int, unit) QueueClient) Handle) Registry" where
  "server_registry \<equiv> NewInTreeRegistry int_quantity cpu_order
     (\<lambda>_ _. Inr [\<lparr>quota_Name = ''a'', Hard = Some (cpu_list 10)\<rparr>])"

lemma server_range: "is_range [RQ_Name, Priority_Name] server_registry"
  by (auto simp: is_range_def NewInTreeRegistry_def)


section \<open>The default backoff\<close>

lemma default_options:
  "main_options [] = Ok \<lparr>KubeConfig = '''', QPS = 5, Burst = 10, PodInitialBackoffSeconds = 1, PodMaxBackoffSeconds = 20\<rparr>"
  by (simp add: main_options_def AddFlags_def StringVar_def IntVar_def NewServerOption_def Let_def)

text \<open>C24. With no arguments, once the program has started, a unit that has been tried \<open>n\<close> times without success
  waits 1 second doubled \<open>n - 1\<close> times, and at most 20 seconds, in every queue made for a
  \<^verbatim>\<open>Queue\<close> object.\<close>

theorem default_backoff:
  assumes "is_range ks (NewInTreeRegistry Q ord lister)"
    and "main plat env [] ks (NewInTreeRegistry Q ord lister) s0 w = Ok (sch, W)"
    and "p = queue_for (mqueue W) q"
  shows "sint (calculateBackoffDuration (podInitialBackoffDuration p) (podMaxBackoffDuration p) info) =
    10 ^ 9 * min (2 ^ nat (sint (Attempts info) - 1)) 20"
proof (rule main_cases [OF assms(1), of plat env "[]" s0 w])
  fix opt handle client sch' W'
  assume "main_options [] = Ok opt"
    and "NewController ks (NewInTreeRegistry Q ord lister) handle s0 client w
      (PodInitialBackoffSeconds opt) (PodMaxBackoffSeconds opt) = Ok (sch', W')"
    and "main plat env [] ks (NewInTreeRegistry Q ord lister) s0 w = Ok (sch', W')"
  then have "mq_podInitialBackoffSeconds (mqueue W) = 1" "mq_podMaxBackoffSeconds (mqueue W) = 20"
    using assms(2) by (auto simp: default_options new_controller_in_tree [OF assms(1)])
  then have "podInitialBackoffDuration p = 1000000000" "podMaxBackoffDuration p = 20000000000"
    by (simp_all add: assms(3) queue_for_def NewPrioritySchedulingQueue_def seconds_def Let_def)
  with backoff_loop_exact [of "20000000000" "1000000000" "Attempts info" 1] show ?thesis
    by (simp add: calculateBackoffDuration_def min_def)
qed (use assms(2) in simp)

text \<open>The sample platform gets as far as a running program.\<close>

lemma sample_main:
  "main sample_platform '''' [] [RQ_Name, Priority_Name] server_registry no_quota () =
     NewController [RQ_Name, Priority_Name] server_registry
       \<lparr>KubeConfigPath = '''', SharedInformerFactory = (), QueueUnitClient = job_client\<rparr> no_quota job_client () 1 20"
  by (simp add: main_def Run_def default_options Let_def new_controller_in_tree [OF server_range])

theorem default_backoff_witness:
  "\<exists>sch W. main sample_platform '''' [] [RQ_Name, Priority_Name] server_registry no_quota () = Ok (sch, W)
    \<and> sint (calculateBackoffDuration (podInitialBackoffDuration (queue_for (mqueue W) qa))
        (podMaxBackoffDuration (queue_for (mqueue W) qa)) (job_info\<lparr>Attempts := 5\<rparr>)) = 16000000000"
proof -
  obtain sch W where W: "main sample_platform '''' [] [RQ_Name, Priority_Name] server_registry no_quota () = Ok (sch, W)"
    by (simp add: sample_main new_controller_in_tree [OF server_range])
  from default_backoff [OF server_range W refl, of qa "job_info\<lparr>Attempts := 5\<rparr>"] W show ?thesis by simp
qed

end
